theory Spec2Isabelle
  imports Main "HOL-Library.Word"
begin

unbundle bit_operations_syntax

section \<open>Data model of the storage engine (embedded/store/immustore.go)\<close>

type_synonym byte = "8 word"
type_synonym u64 = "64 word"
type_synonym u32 = "32 word"
type_synonym u16 = "16 word"

text \<open>A SHA-256 digest, \<^verbatim>\<open>[sha256.Size]byte\<close>. The hash functions themselves are
  collaborators and enter the model as parameters.\<close>

type_synonym digest = "byte list"

text \<open>The error values of the package. A wrapped error
  (\<^verbatim>\<open>fmt.Errorf("%w: ...", ErrIllegalArguments)\<close>) is identified with the error it
  wraps, as \<^verbatim>\<open>errors.Is\<close> does. \<open>ErrOther\<close> stands for an error surfaced unchanged
  from a collaborator (an appendable, the hash tree, a watcher, the tx pool).\<close>

datatype error =
    ErrIllegalArguments
  | ErrIllegalState
  | ErrAlreadyClosed
  | ErrUnexpectedLinkingError
  | ErrNoEntriesProvided
  | ErrTxAlreadyCommitted
  | ErrMaxTxEntriesLimitExceeded
  | ErrNullKey
  | ErrMaxKeyLenExceeded
  | ErrMaxValueLenExceeded
  | ErrPreconditionFailed
  | ErrDuplicatedKey
  | ErrMaxActiveTransactionsLimitExceeded
  | ErrMaxConcurrencyLimitExceeded
  | ErrCorruptedTxData
  | ErrCorruptedData
  | ErrCorruptedCLog
  | ErrUnexpectedError
  | ErrSourceTxNewerThanTargetTx
  | ErrInvalidPreconditionTooMany
  | ErrEmptyTree
  | ErrInvalidPreconditionNull
  | ErrContextDone
  | ErrEOF
  | ErrBufferIsFull
  | ErrNotEnoughData
  | ErrPanic
  | ErrOther nat

subsection \<open>Integer conversions and big-endian encoding\<close>

text \<open>Go's \<^verbatim>\<open>int\<close> and \<^verbatim>\<open>int64\<close> are 64-bit two's complement; they are modelled as
  \<open>int\<close> and every conversion from and to \<^verbatim>\<open>uint64\<close> is written out.\<close>

definition int_of_u64 :: "u64 \<Rightarrow> int" where
  "int_of_u64 w = sint w"

definition u64_of_int :: "int \<Rightarrow> u64" where
  "u64_of_int i = word_of_int i"

definition u32_of_int :: "int \<Rightarrow> u32" where
  "u32_of_int i = word_of_int i"

definition u16_of_int :: "int \<Rightarrow> u16" where
  "u16_of_int i = word_of_int i"

definition be_bytes :: "nat \<Rightarrow> 'a::len word \<Rightarrow> byte list" where
  "be_bytes n w = map (\<lambda>i. ucast (drop_bit (8 * i) w)) (rev [0..<n])"

definition putUint64 :: "u64 \<Rightarrow> byte list" where
  "putUint64 w = be_bytes 8 w"

definition putUint32 :: "u32 \<Rightarrow> byte list" where
  "putUint32 w = be_bytes 4 w"

definition putUint16 :: "u16 \<Rightarrow> byte list" where
  "putUint16 w = be_bytes 2 w"

definition be_decode :: "byte list \<Rightarrow> 'a::len word" where
  "be_decode bs = foldl (\<lambda>acc b. push_bit 8 acc OR ucast b) 0 bs"

definition uint64_be :: "byte list \<Rightarrow> u64" where
  "uint64_be bs = be_decode (take 8 bs)"

definition uint32_be :: "byte list \<Rightarrow> u32" where
  "uint32_be bs = be_decode (take 4 bs)"

definition cLogEntrySize :: nat where
  "cLogEntrySize = 12"

definition maxUint64 :: "u64 \<Rightarrow> u64 \<Rightarrow> u64" where
  "maxUint64 a b = (if a \<le> b then b else a)"

definition minUint64 :: "u64 \<Rightarrow> u64 \<Rightarrow> u64" where
  "minUint64 a b = (if a \<ge> b then b else a)"

definition maxInt :: "int \<Rightarrow> int \<Rightarrow> int" where
  "maxInt a b = (if a \<le> b then b else a)"

subsection \<open>Precommit buffer\<close>

text \<open>Modelled from the spec: the precommit buffer (type \<^verbatim>\<open>precommitBuffer\<close>, whose
  source file is not part of the material). The spec describes it as an in-memory ring
  buffer of precommitted commit-log records \<open>(ID, Alh, txOffset, txSize)\<close> with a
  writer that pushes and can be walked back, and a reader that reads ahead and is
  advanced on commit. The ring is modelled by its capacity and by the records between
  the reader and the writer, oldest first.\<close>

record precommittedEntry =
  pe_txID :: u64
  pe_alh :: digest
  pe_txOff :: int
  pe_txSize :: int

record precommitBuffer =
  pb_size :: nat
  pb_items :: "precommittedEntry list"

definition newPrecommitBuffer :: "int \<Rightarrow> precommitBuffer" where
  "newPrecommitBuffer n = \<lparr>pb_size = nat n, pb_items = []\<rparr>"

definition pb_put :: "precommitBuffer \<Rightarrow> u64 \<Rightarrow> digest \<Rightarrow> int \<Rightarrow> int \<Rightarrow> error + precommitBuffer" where
  "pb_put b txID alh txOff txSize =
     (if length (pb_items b) \<ge> pb_size b then Inl ErrBufferIsFull
      else Inr (b\<lparr>pb_items := pb_items b @
                  [\<lparr>pe_txID = txID, pe_alh = alh, pe_txOff = txOff, pe_txSize = txSize\<rparr>]\<rparr>))"

definition pb_readAhead :: "precommitBuffer \<Rightarrow> int \<Rightarrow> error + precommittedEntry" where
  "pb_readAhead b n =
     (if n < 0 then Inl ErrIllegalArguments
      else if int (length (pb_items b)) \<le> n then Inl ErrNotEnoughData
      else Inr (pb_items b ! nat n))"

definition pb_advanceReader :: "precommitBuffer \<Rightarrow> int \<Rightarrow> error + precommitBuffer" where
  "pb_advanceReader b n =
     (if n < 0 then Inl ErrIllegalArguments
      else if int (length (pb_items b)) < n then Inl ErrNotEnoughData
      else Inr (b\<lparr>pb_items := drop (nat n) (pb_items b)\<rparr>))"

definition pb_recedeWriter :: "precommitBuffer \<Rightarrow> int \<Rightarrow> error + precommitBuffer" where
  "pb_recedeWriter b n =
     (if n < 0 then Inl ErrIllegalArguments
      else if int (length (pb_items b)) < n then Inl ErrNotEnoughData
      else Inr (b\<lparr>pb_items := take (length (pb_items b) - nat n) (pb_items b)\<rparr>))"

subsection \<open>Appendable log\<close>

text \<open>Modelled from the spec: the appendable log (package \<^verbatim>\<open>appendable\<close>, not part of
  the material), an append-only byte stream with \<open>Append\<close>, \<open>ReadAt\<close>, \<open>Flush\<close>,
  \<open>Sync\<close> and a settable write offset. \<open>a_bytes\<close> are the bytes up to the current
  write offset; \<open>a_flushed\<close> and \<open>a_synced\<close> say that nothing appended is still
  waiting for a flush or for an fsync.\<close>

record appendable =
  a_bytes :: "byte list"
  a_flushed :: bool
  a_synced :: bool

definition app_Size :: "appendable \<Rightarrow> int" where
  "app_Size a = int (length (a_bytes a))"

definition app_SetOffset :: "appendable \<Rightarrow> int \<Rightarrow> error + appendable" where
  "app_SetOffset a off =
     (if off < 0 \<or> off > app_Size a then Inl ErrIllegalArguments
      else Inr (a\<lparr>a_bytes := take (nat off) (a_bytes a)\<rparr>))"

definition app_Append :: "appendable \<Rightarrow> byte list \<Rightarrow> int \<times> appendable" where
  "app_Append a bs =
     (app_Size a, a\<lparr>a_bytes := a_bytes a @ bs, a_flushed := False, a_synced := False\<rparr>)"

definition app_Flush :: "appendable \<Rightarrow> appendable" where
  "app_Flush a = a\<lparr>a_flushed := True\<rparr>"

definition app_Sync :: "appendable \<Rightarrow> appendable" where
  "app_Sync a = a\<lparr>a_synced := True\<rparr>"

definition app_ReadAt :: "appendable \<Rightarrow> nat \<Rightarrow> int \<Rightarrow> error + byte list" where
  "app_ReadAt a n off =
     (if off < 0 \<or> off + int n > app_Size a then Inl (ErrOther 0)
      else Inr (take n (drop (nat off) (a_bytes a))))"

subsection \<open>The store\<close>

text \<open>The fields of \<^verbatim>\<open>ImmuStore\<close> that the commit state machine reads and writes.
  The three watcher hubs are represented by their done-up-to marks; the hash tree (AHT)
  by its sequence of leaves. Mutexes are not represented: every operation below runs
  as one atomic step, which is what holding the locks provides.

  \<open>faults\<close> is the schedule of the outcomes of the coming calls into fallible
  collaborators (I/O on the logs, the hash tree, the tx-log cache): each such call takes
  the head of the list, \<open>None\<close> meaning that it succeeds, and an empty list that every
  further call succeeds. A theorem about every store is thus a theorem about every
  pattern of failures.\<close>

record ImmuStore =
  vLogs :: "appendable list"
  vLogUnlockedList :: "nat list"
  vLogCacheOn :: bool
  txPoolFree :: nat
  txLog :: appendable
  cLog :: appendable
  cLogBuf :: precommitBuffer
  committedTxID :: u64
  committedAlh :: digest
  inmemPrecommittedTxID :: u64
  inmemPrecommittedAlh :: digest
  precommittedTxLogSize :: int
  mandatoryMVCCUpToTxID :: u64
  synced :: bool
  maxActiveTransactions :: int
  maxTxEntries :: int
  maxKeyLen :: int
  maxValueLen :: int
  writeTxHeaderVersion :: int
  useExternalCommitAllowance :: bool
  commitAllowedUpToTxID :: u64
  aht :: "digest list"
  inmemPrecommitWHub :: u64
  durablePrecommitWHub :: u64
  commitWHub :: u64
  closed :: bool
  faults :: "error option list"

definition io_step :: "ImmuStore \<Rightarrow> error option \<times> ImmuStore" where
  "io_step s = (case faults s of [] \<Rightarrow> (None, s) | f # fs \<Rightarrow> (f, s\<lparr>faults := fs\<rparr>))"

text \<open>\<^verbatim>\<open>WatchersHub.DoneUpto\<close> is monotone: a lower mark is ignored.\<close>

definition doneUpto :: "u64 \<Rightarrow> u64 \<Rightarrow> u64" where
  "doneUpto mark t = (if mark < t then t else mark)"

section \<open>Commit path\<close>

definition commitAllowedUpTo :: "ImmuStore \<Rightarrow> u64" where
  "commitAllowedUpTo s =
     (if \<not> useExternalCommitAllowance s then inmemPrecommittedTxID s
      else commitAllowedUpToTxID s)"

definition cLog_record :: "int \<Rightarrow> int \<Rightarrow> byte list" where
  "cLog_record txOff txSize = putUint64 (u64_of_int txOff) @ putUint32 (u32_of_int txSize)"

definition cLog_SetOffset :: "ImmuStore \<Rightarrow> int \<Rightarrow> error option \<times> ImmuStore" where
  "cLog_SetOffset s off =
     (case io_step s of
        (Some e, s1) \<Rightarrow> (Some e, s1)
      | (None, s1) \<Rightarrow>
          (case app_SetOffset (cLog s1) off of
             Inl e \<Rightarrow> (Some e, s1)
           | Inr a \<Rightarrow> (None, s1\<lparr>cLog := a\<rparr>)))"

definition cLog_Append :: "ImmuStore \<Rightarrow> byte list \<Rightarrow> error option \<times> ImmuStore" where
  "cLog_Append s bs =
     (case io_step s of
        (Some e, s1) \<Rightarrow> (Some e, s1)
      | (None, s1) \<Rightarrow> (None, s1\<lparr>cLog := snd (app_Append (cLog s1) bs)\<rparr>))"

definition cLog_Flush :: "ImmuStore \<Rightarrow> error option \<times> ImmuStore" where
  "cLog_Flush s =
     (case io_step s of
        (Some e, s1) \<Rightarrow> (Some e, s1)
      | (None, s1) \<Rightarrow> (None, s1\<lparr>cLog := app_Flush (cLog s1)\<rparr>))"

definition cLog_Sync :: "ImmuStore \<Rightarrow> error option \<times> ImmuStore" where
  "cLog_Sync s =
     (case io_step s of
        (Some e, s1) \<Rightarrow> (Some e, s1)
      | (None, s1) \<Rightarrow> (None, s1\<lparr>cLog := app_Sync (cLog s1)\<rparr>))"

text \<open>The loop of \<^verbatim>\<open>mayCommit\<close> and \<^verbatim>\<open>sync\<close> that writes one commit-log record per
  precommitted transaction: \<open>k\<close> iterations are left, \<open>i\<close> is the loop index, the pair
  is \<open>(commitUpToTxID, commitUpToTxAlh)\<close>.\<close>

fun commit_records :: "nat \<Rightarrow> int \<Rightarrow> u64 \<times> digest \<Rightarrow> ImmuStore
    \<Rightarrow> (error + u64 \<times> digest) \<times> ImmuStore" where
  "commit_records 0 i acc s = (Inr acc, s)"
| "commit_records (Suc k) i acc s =
     (case pb_readAhead (cLogBuf s) i of
        Inl e \<Rightarrow> (Inl e, s)
      | Inr pe \<Rightarrow>
          (case cLog_Append s (cLog_record (pe_txOff pe) (pe_txSize pe)) of
             (Some e, s1) \<Rightarrow> (Inl e, s1)
           | (None, s1) \<Rightarrow> commit_records k (i + 1) (pe_txID pe, pe_alh pe) s1))"

definition mayCommit :: "ImmuStore \<Rightarrow> error option \<times> ImmuStore" where
  "mayCommit s =
     (let allowedUpTo = commitAllowedUpTo s;
          txsCountToBeCommitted = int_of_u64 (allowedUpTo - committedTxID s)
      in if txsCountToBeCommitted = 0 then (None, s)
         else
           (case cLog_SetOffset s (int_of_u64 (committedTxID s * 12)) of
              (Some e, s1) \<Rightarrow> (Some e, s1)
            | (None, s1) \<Rightarrow>
                (case commit_records (nat txsCountToBeCommitted) 0 (0, replicate 32 0) s1 of
                   (Inl e, s2) \<Rightarrow> (Some e, s2)
                 | (Inr (commitUpToTxID, commitUpToTxAlh), s2) \<Rightarrow>
                     if commitUpToTxID \<noteq> allowedUpTo then (Some ErrUnexpectedError, s2)
                     else
                       (case cLog_Flush s2 of
                          (Some e, s3) \<Rightarrow> (Some e, s3)
                        | (None, s3) \<Rightarrow>
                            (case pb_advanceReader (cLogBuf s3) txsCountToBeCommitted of
                               Inl e \<Rightarrow> (Some e, s3)
                             | Inr b \<Rightarrow>
                                 (None, s3\<lparr>cLogBuf := b,
                                           committedTxID := commitUpToTxID,
                                           committedAlh := commitUpToTxAlh,
                                           commitWHub := doneUpto (commitWHub s3) commitUpToTxID\<rparr>))))))"

text \<open>\<^verbatim>\<open>sync\<close>: flush and fsync every value log and the tx log, mark the precommitted
  transactions durable, then write, flush and fsync the commit-log records.\<close>

fun sync_vLogs :: "appendable list \<Rightarrow> appendable list \<Rightarrow> ImmuStore \<Rightarrow> error option \<times> ImmuStore" where
  "sync_vLogs done [] s = (None, s\<lparr>vLogs := done\<rparr>)"
| "sync_vLogs done (v # vs) s =
     (case io_step s of
        (Some e, s1) \<Rightarrow> (Some e, s1\<lparr>vLogs := done @ v # vs\<rparr>)
      | (None, s1) \<Rightarrow>
          (case io_step s1 of
             (Some e, s2) \<Rightarrow> (Some e, s2\<lparr>vLogs := done @ app_Flush v # vs\<rparr>)
           | (None, s2) \<Rightarrow> sync_vLogs (done @ [app_Sync (app_Flush v)]) vs s2))"

definition txLog_FlushSync :: "ImmuStore \<Rightarrow> error option \<times> ImmuStore" where
  "txLog_FlushSync s =
     (case io_step s of
        (Some e, s1) \<Rightarrow> (Some e, s1)
      | (None, s1) \<Rightarrow>
          (case io_step (s1\<lparr>txLog := app_Flush (txLog s1)\<rparr>) of
             (Some e, s2) \<Rightarrow> (Some e, s2)
           | (None, s2) \<Rightarrow> (None, s2\<lparr>txLog := app_Sync (txLog s2)\<rparr>)))"

definition durable_DoneUpto :: "ImmuStore \<Rightarrow> error option \<times> ImmuStore" where
  "durable_DoneUpto s =
     (case io_step s of
        (Some e, s1) \<Rightarrow> (Some e, s1)
      | (None, s1) \<Rightarrow>
          (None, s1\<lparr>durablePrecommitWHub :=
                       doneUpto (durablePrecommitWHub s1) (inmemPrecommittedTxID s1)\<rparr>))"

definition sync_commit :: "ImmuStore \<Rightarrow> error option \<times> ImmuStore" where
  "sync_commit s =
     (let allowedUpTo = commitAllowedUpTo s;
          txsCountToBeCommitted = int_of_u64 (allowedUpTo - committedTxID s)
      in if txsCountToBeCommitted = 0 then (None, s)
         else
           (case cLog_SetOffset s (int_of_u64 (committedTxID s * 12)) of
              (Some e, s1) \<Rightarrow> (Some e, s1)
            | (None, s1) \<Rightarrow>
                (case commit_records (nat txsCountToBeCommitted) 0 (0, replicate 32 0) s1 of
                   (Inl e, s2) \<Rightarrow> (Some e, s2)
                 | (Inr (commitUpToTxID, commitUpToTxAlh), s2) \<Rightarrow>
                     if commitUpToTxID \<noteq> allowedUpTo then (Some ErrUnexpectedError, s2)
                     else
                       (case cLog_Flush s2 of
                          (Some e, s3) \<Rightarrow> (Some e, s3)
                        | (None, s3) \<Rightarrow>
                            (case cLog_Sync s3 of
                               (Some e, s4) \<Rightarrow> (Some e, s4)
                             | (None, s4) \<Rightarrow>
                                 (case pb_advanceReader (cLogBuf s4) txsCountToBeCommitted of
                                    Inl e \<Rightarrow> (Some e, s4)
                                  | Inr b \<Rightarrow>
                                      (None, s4\<lparr>cLogBuf := b,
                                                committedTxID := commitUpToTxID,
                                                committedAlh := commitUpToTxAlh,
                                                commitWHub := doneUpto (commitWHub s4) commitUpToTxID\<rparr>)))))))"

definition sync :: "ImmuStore \<Rightarrow> error option \<times> ImmuStore" where
  "sync s =
     (if inmemPrecommittedTxID s = committedTxID s then (None, s)
      else
        (case sync_vLogs [] (vLogs s) s of
           (Some e, s1) \<Rightarrow> (Some e, s1)
         | (None, s1) \<Rightarrow>
             (case txLog_FlushSync s1 of
                (Some e, s2) \<Rightarrow> (Some e, s2)
              | (None, s2) \<Rightarrow>
                  (case durable_DoneUpto s2 of
                     (Some e, s3) \<Rightarrow> (Some e, s3)
                   | (None, s3) \<Rightarrow> sync_commit s3))))"

definition Sync :: "ImmuStore \<Rightarrow> error option \<times> ImmuStore" where
  "Sync s = (if closed s then (Some ErrAlreadyClosed, s) else sync s)"

section \<open>External commit allowance\<close>

definition SetExternalCommitAllowance :: "ImmuStore \<Rightarrow> bool \<Rightarrow> ImmuStore" where
  "SetExternalCommitAllowance s enabled =
     (let s1 = s\<lparr>useExternalCommitAllowance := enabled\<rparr>
      in if enabled then s1\<lparr>commitAllowedUpToTxID := committedTxID s1\<rparr> else s1)"

definition AllowCommitUpto :: "ImmuStore \<Rightarrow> u64 \<Rightarrow> error option \<times> ImmuStore" where
  "AllowCommitUpto s txID =
     (if closed s then (Some ErrAlreadyClosed, s)
      else if \<not> useExternalCommitAllowance s then (Some ErrIllegalState, s)
      else if txID \<le> commitAllowedUpToTxID s then (None, s)
      else
        (let s1 = (if inmemPrecommittedTxID s < txID
                   then s\<lparr>commitAllowedUpToTxID := inmemPrecommittedTxID s\<rparr>
                   else s\<lparr>commitAllowedUpToTxID := txID\<rparr>)
         in if \<not> synced s1 then mayCommit s1 else (None, s1)))"

section \<open>Discarding the uncommitted tail\<close>

text \<open>Modelled from the spec: the append-only hash tree (package \<^verbatim>\<open>ahtree\<close>, not part
  of the material) over the sequence of per-transaction accumulative hashes, leaf \<open>i\<close>
  being \<open>Alh(i)\<close>. \<open>ResetSize\<close> rolls uncommitted growth back and cannot grow the
  tree.\<close>

definition aht_Size :: "ImmuStore \<Rightarrow> u64" where
  "aht_Size s = word_of_nat (length (aht s))"

definition aht_ResetSize :: "ImmuStore \<Rightarrow> u64 \<Rightarrow> error option \<times> ImmuStore" where
  "aht_ResetSize s n =
     (case io_step s of
        (Some e, s1) \<Rightarrow> (Some e, s1)
      | (None, s1) \<Rightarrow>
          if unat n > length (aht s1) then (Some ErrIllegalArguments, s1)
          else (None, s1\<lparr>aht := take (unat n) (aht s1)\<rparr>))"

definition aht_Append :: "ImmuStore \<Rightarrow> digest \<Rightarrow> error option \<times> ImmuStore" where
  "aht_Append s d =
     (case io_step s of
        (Some e, s1) \<Rightarrow> (Some e, s1)
      | (None, s1) \<Rightarrow> (None, s1\<lparr>aht := aht s1 @ [d]\<rparr>))"

text \<open>The body of \<^verbatim>\<open>DiscardPrecommittedTxsSince\<close> once its argument has passed the
  guards: the tree and the buffer are walked back and the precommitted state is reset.\<close>

definition discard_txs :: "ImmuStore \<Rightarrow> u64 \<Rightarrow> (error + int) \<times> ImmuStore" where
  "discard_txs s txID =
     (let txsToDiscard = int_of_u64 (inmemPrecommittedTxID s + 1 - txID)
      in case aht_ResetSize s (aht_Size s - u64_of_int txsToDiscard) of
           (Some e, s1) \<Rightarrow> (Inl e, s1)
         | (None, s1) \<Rightarrow>
             (case pb_recedeWriter (cLogBuf s1) txsToDiscard of
                Inl e \<Rightarrow> (Inl e, s1)
              | Inr b \<Rightarrow>
                  (let s2 = s1\<lparr>cLogBuf := b\<rparr>
                   in if txID - 1 = committedTxID s2
                      then (Inr txsToDiscard,
                            s2\<lparr>inmemPrecommittedTxID := committedTxID s2,
                               inmemPrecommittedAlh := committedAlh s2\<rparr>)
                      else
                        (case pb_readAhead (cLogBuf s2)
                                (int_of_u64 (inmemPrecommittedTxID s2 - committedTxID s2 - 1)
                                   - txsToDiscard) of
                           Inl e \<Rightarrow>
                             (Inl e, s2\<lparr>inmemPrecommittedTxID := committedTxID s2,
                                        inmemPrecommittedAlh := committedAlh s2\<rparr>)
                         | Inr pe \<Rightarrow>
                             if pe_txID pe \<noteq> txID - 1
                             then (Inr 0, s2\<lparr>inmemPrecommittedTxID := committedTxID s2,
                                            inmemPrecommittedAlh := committedAlh s2\<rparr>)
                             else (Inr txsToDiscard,
                                   s2\<lparr>inmemPrecommittedTxID := txID - 1,
                                      inmemPrecommittedAlh := pe_alh pe\<rparr>)))))"

definition DiscardPrecommittedTxsSince :: "ImmuStore \<Rightarrow> u64 \<Rightarrow> (error + int) \<times> ImmuStore" where
  "DiscardPrecommittedTxsSince s txID =
     (if closed s then (Inl ErrAlreadyClosed, s)
      else if txID = 0 then (Inl ErrIllegalArguments, s)
      else if txID \<le> committedTxID s then (Inl ErrIllegalArguments, s)
      else if txID > inmemPrecommittedTxID s then (Inr 0, s)
      else discard_txs s txID)"

subsection \<open>Auxiliary predicates for the commit path\<close>

definition frame_cLog :: "ImmuStore \<Rightarrow> ImmuStore \<Rightarrow> bool" where
  "frame_cLog s s' \<longleftrightarrow> s' = s\<lparr>cLog := cLog s', faults := faults s'\<rparr>"

definition cLog_records :: "precommittedEntry list \<Rightarrow> byte list" where
  "cLog_records pes = concat (map (\<lambda>pe. cLog_record (pe_txOff pe) (pe_txSize pe)) pes)"

text \<open>What a run of the commit phase has done to the commit log when it has appended
  every record it was allowed to.\<close>

definition records_committed :: "ImmuStore \<Rightarrow> ImmuStore \<Rightarrow> bool" where
  "records_committed s s' \<longleftrightarrow>
     (let n = nat (int_of_u64 (commitAllowedUpTo s - committedTxID s))
      in n \<le> length (pb_items (cLogBuf s)) \<and>
         a_bytes (cLog s') =
           take (nat (int_of_u64 (committedTxID s * 12))) (a_bytes (cLog s))
             @ cLog_records (take n (pb_items (cLogBuf s))) \<and>
         committedTxID s' = commitAllowedUpTo s)"

definition frame_sync :: "ImmuStore \<Rightarrow> ImmuStore \<Rightarrow> bool" where
  "frame_sync s s' \<longleftrightarrow>
     s' = s\<lparr>vLogs := vLogs s', txLog := txLog s',
            durablePrecommitWHub := durablePrecommitWHub s', faults := faults s'\<rparr>"

section \<open>Transactions\<close>

text \<open>Transaction and KV metadata are opaque to the engine: they are represented by their
  serialized bytes, \<open>None\<close> being the nil pointer.\<close>

record TxHeader =
  hID :: u64
  hTs :: int
  hBlTxID :: u64
  hBlRoot :: digest
  hPrevAlh :: digest
  hVersion :: int
  hMetadata :: "byte list option"
  hNEntries :: int
  hEh :: digest

record TxEntry =
  te_k :: "byte list"
  te_md :: "byte list option"
  te_vLen :: int
  te_hVal :: digest
  te_vOff :: int

record Tx =
  header :: TxHeader
  entries :: "TxEntry list"

record EntrySpec =
  Key :: "byte list option"
  Metadata :: "byte list option"
  Value :: "byte list"
  isValueTruncated :: bool
  hashValue :: digest

text \<open>A precondition is an interface value; the engine only calls its \<open>Validate\<close>
  method, whose outcome is the field \<open>pc_Validate\<close>.\<close>

record Precondition =
  pc_Validate :: "error option"

text \<open>An ongoing transaction. \<open>o_validateAgainst\<close> and \<open>o_checkPreconditions\<close> are the
  outcomes of its methods \<^verbatim>\<open>validateAgainst(hdr)\<close> and \<^verbatim>\<open>checkPreconditions(s)\<close>,
  which are defined outside the file under study.\<close>

record OngoingTx =
  o_entries :: "EntrySpec list"
  o_preconditions :: "Precondition option list"
  o_metadata :: "byte list option"
  o_unsafeMVCC :: bool
  o_requireMVCCOnFollowingTxs :: bool
  o_validateAgainst :: "TxHeader option \<Rightarrow> error option"
  o_checkPreconditions :: "error option"

text \<open>The pure collaborators of the engine, taken as parameters: SHA-256, the standard
  base-64 encoding, the per-transaction hash tree that yields \<open>Eh\<close>, the queries of
  the append-only hash tree over a sequence of leaves, the parsers of a header and of
  KV metadata, the parser of a serialized transaction (\<^verbatim>\<open>Tx.readFrom\<close> on a reader:
  given the bytes not yet read it yields the header of the next transaction and the
  number of bytes read, \<open>ErrEOF\<close> at the end of the log, or another error), and the construction of a write-only ongoing transaction from metadata and
  entries (\<^verbatim>\<open>NewWriteOnlyTx\<close> followed by one \<^verbatim>\<open>set\<close> per entry).\<close>

record deps =
  d_sha256 :: "byte list \<Rightarrow> digest"
  d_b64 :: "byte list \<Rightarrow> string"
  d_buildHashTree :: "TxEntry list \<Rightarrow> error + digest"
  d_rootAt :: "digest list \<Rightarrow> u64 \<Rightarrow> error + digest"
  d_inclusionProof :: "digest list \<Rightarrow> u64 \<Rightarrow> u64 \<Rightarrow> error + digest list"
  d_consistencyProof :: "digest list \<Rightarrow> u64 \<Rightarrow> u64 \<Rightarrow> error + digest list"
  d_hdrReadFrom :: "byte list \<Rightarrow> error + TxHeader"
  d_kvmdReadFrom :: "byte list \<Rightarrow> error + byte list"
  d_newTxSpec :: "byte list option \<Rightarrow> EntrySpec list \<Rightarrow> error + OngoingTx"
  d_txReadFrom :: "byte list \<Rightarrow> error + TxHeader \<times> nat"

definition md_bytes :: "byte list option \<Rightarrow> byte list" where
  "md_bytes md = (case md of None \<Rightarrow> [] | Some bs \<Rightarrow> bs)"

definition md_IsEmpty :: "byte list option \<Rightarrow> bool" where
  "md_IsEmpty md = (md_bytes md = [])"

text \<open>Modelled from the spec: the accumulative hash of a header (methods \<open>Alh\<close> and
  \<open>innerHash\<close> of \<open>TxHeader\<close>, defined outside the file under study):
  \<open>Alh = SHA-256(ID || PrevAlh || innerHash)\<close> with
  \<open>innerHash = SHA-256(Ts || Version || (mdLen || md)? || NEntries || BlTxID || BlRoot || Eh)\<close>,
  the metadata and a 32-bit entry count being present in version 1 only.\<close>

definition innerHash :: "deps \<Rightarrow> TxHeader \<Rightarrow> digest" where
  "innerHash D h =
     d_sha256 D
       (putUint64 (u64_of_int (hTs h)) @ putUint16 (u16_of_int (hVersion h)) @
        (if hVersion h = 0 then putUint16 (u16_of_int (hNEntries h))
         else putUint16 (u16_of_int (int (length (md_bytes (hMetadata h))))) @
              md_bytes (hMetadata h) @ putUint32 (u32_of_int (hNEntries h))) @
        putUint64 (hBlTxID h) @ hBlRoot h @ hEh h)"

definition Alh :: "deps \<Rightarrow> TxHeader \<Rightarrow> digest" where
  "Alh D h = d_sha256 D (putUint64 (hID h) @ hPrevAlh h @ innerHash D h)"

definition zero_digest :: digest where
  "zero_digest = replicate 32 0"

definition new_TxHeader :: TxHeader where
  "new_TxHeader = \<lparr>hID = 0, hTs = 0, hBlTxID = 0, hBlRoot = zero_digest, hPrevAlh = zero_digest,
     hVersion = 0, hMetadata = None, hNEntries = 0, hEh = zero_digest\<rparr>"

section \<open>Precommit path\<close>

text \<open>\<^verbatim>\<open>fetchAllocTx\<close>: an exhausted pool of transaction holders is reported as
  \<open>ErrMaxConcurrencyLimitExceeded\<close>. Every operation releases its holder when it returns.\<close>

definition fetchAllocTx :: "ImmuStore \<Rightarrow> error option" where
  "fetchAllocTx s = (if txPoolFree s = 0 then Some ErrMaxConcurrencyLimitExceeded else None)"


subsection \<open>Validation\<close>

text \<open>The loop of \<^verbatim>\<open>validateEntries\<close>; \<open>m\<close> is the set of base-64 keys seen so far.\<close>

fun validateEntries_loop :: "deps \<Rightarrow> ImmuStore \<Rightarrow> string set \<Rightarrow> EntrySpec list \<Rightarrow> error option" where
  "validateEntries_loop D s m [] = None"
| "validateEntries_loop D s m (kv # kvs) =
     (case Key kv of
        None \<Rightarrow> Some ErrNullKey
      | Some key \<Rightarrow>
          if int (length key) > maxKeyLen s then Some ErrMaxKeyLenExceeded
          else if int (length (Value kv)) > maxValueLen s then Some ErrMaxValueLenExceeded
          else if d_b64 D key \<in> m then Some ErrDuplicatedKey
          else validateEntries_loop D s (insert (d_b64 D key) m) kvs)"

definition validateEntries :: "deps \<Rightarrow> ImmuStore \<Rightarrow> EntrySpec list \<Rightarrow> error option" where
  "validateEntries D s es =
     (if int (length es) > maxTxEntries s then Some ErrMaxTxEntriesLimitExceeded
      else validateEntries_loop D s {} es)"

fun validatePreconditions_loop :: "Precondition option list \<Rightarrow> error option" where
  "validatePreconditions_loop [] = None"
| "validatePreconditions_loop (c # cs) =
     (case c of
        None \<Rightarrow> Some ErrInvalidPreconditionNull
      | Some p \<Rightarrow>
          (case pc_Validate p of
             Some e \<Rightarrow> Some e
           | None \<Rightarrow> validatePreconditions_loop cs))"

definition validatePreconditions :: "ImmuStore \<Rightarrow> Precondition option list \<Rightarrow> error option" where
  "validatePreconditions s cs =
     (if int (length cs) > maxTxEntries s then Some ErrInvalidPreconditionTooMany
      else validatePreconditions_loop cs)"

subsection \<open>Appending the values\<close>

definition encodeOffset :: "int \<Rightarrow> nat \<Rightarrow> int" where
  "encodeOffset offset vLogID =
     sint (push_bit 56 (word_of_nat vLogID :: u64) OR (word_of_int offset :: u64))"

text \<open>The loop of \<^verbatim>\<open>appendData\<close> over the entries, on the value log \<open>v\<close> with
  identifier \<open>vLogID\<close>: an empty value is skipped and keeps offset 0.\<close>

fun appendData_loop :: "nat \<Rightarrow> EntrySpec list \<Rightarrow> int list \<Rightarrow> appendable \<Rightarrow> ImmuStore
    \<Rightarrow> (error + int list) \<times> appendable \<times> ImmuStore" where
  "appendData_loop vLogID [] offsets v s = (Inr offsets, v, s)"
| "appendData_loop vLogID (e # es) offsets v s =
     (if length (Value e) = 0 then appendData_loop vLogID es (offsets @ [0]) v s
      else
        (case io_step s of
           (Some err, s1) \<Rightarrow> (Inl err, v, s1)
         | (None, s1) \<Rightarrow>
             (let (voff, v1) = app_Append v (Value e) in
              if vLogCacheOn s1 then
                (case io_step s1 of
                   (Some err, s2) \<Rightarrow> (Inl err, v1, s2)
                 | (None, s2) \<Rightarrow>
                     appendData_loop vLogID es (offsets @ [encodeOffset voff vLogID]) v1 s2)
              else appendData_loop vLogID es (offsets @ [encodeOffset voff vLogID]) v1 s1)))"

text \<open>\<^verbatim>\<open>appendData\<close> takes the value log at the front of the unlocked list and puts it
  back at the end when done. With no log unlocked \<^verbatim>\<open>fetchAnyVLog\<close> waits for a
  release; as every operation of the model runs to its end before the next starts, no
  release can come, and the wait ends with the caller's context.\<close>

definition appendData :: "ImmuStore \<Rightarrow> EntrySpec list \<Rightarrow> (error + int list) \<times> ImmuStore" where
  "appendData s es =
     (case vLogUnlockedList s of
        [] \<Rightarrow> (Inl ErrContextDone, s)
      | i # rest \<Rightarrow>
          if i \<ge> length (vLogs s) then (Inl ErrPanic, s)
          else
            (case appendData_loop (i + 1) es [] (vLogs s ! i) s of
               (r, v, s1) \<Rightarrow>
                 (r, s1\<lparr>vLogs := (vLogs s1)[i := v], vLogUnlockedList := rest @ [i]\<rparr>)))"


subsection \<open>\<^verbatim>\<open>performPrecommit\<close>\<close>

definition txLog_SetOffset :: "ImmuStore \<Rightarrow> int \<Rightarrow> error option \<times> ImmuStore" where
  "txLog_SetOffset s off =
     (case io_step s of
        (Some e, s1) \<Rightarrow> (Some e, s1)
      | (None, s1) \<Rightarrow>
          (case app_SetOffset (txLog s1) off of
             Inl e \<Rightarrow> (Some e, s1)
           | Inr a \<Rightarrow> (None, s1\<lparr>txLog := a\<rparr>)))"

definition txLog_Append :: "ImmuStore \<Rightarrow> byte list \<Rightarrow> (error + int) \<times> ImmuStore" where
  "txLog_Append s bs =
     (case io_step s of
        (Some e, s1) \<Rightarrow> (Inl e, s1)
      | (None, s1) \<Rightarrow>
          (let (off, a) = app_Append (txLog s1) bs in (Inr off, s1\<lparr>txLog := a\<rparr>)))"

text \<open>\<^verbatim>\<open>aht.RootAt\<close>: the root of the tree over the first \<open>n\<close> leaves.\<close>

definition aht_RootAt :: "deps \<Rightarrow> ImmuStore \<Rightarrow> u64 \<Rightarrow> (error + digest) \<times> ImmuStore" where
  "aht_RootAt D s n =
     (case io_step s of
        (Some e, s1) \<Rightarrow> (Inl e, s1)
      | (None, s1) \<Rightarrow> (d_rootAt D (aht s1) n, s1))"

definition serialize_entry :: "TxEntry \<Rightarrow> byte list" where
  "serialize_entry txe =
     putUint16 (u16_of_int (int (length (md_bytes (te_md txe))))) @ md_bytes (te_md txe) @
     putUint16 (u16_of_int (int (length (te_k txe)))) @ te_k txe @
     putUint32 (u32_of_int (te_vLen txe)) @
     putUint64 (u64_of_int (te_vOff txe)) @
     te_hVal txe"

text \<open>The serialization of a transaction into the pre-allocated buffer; an unknown
  header version makes the source panic.\<close>

definition serialize_tx :: "deps \<Rightarrow> Tx \<Rightarrow> error + byte list" where
  "serialize_tx D tx =
     (let h = header tx;
          fixed = putUint64 (hID h) @ putUint64 (u64_of_int (hTs h)) @ putUint64 (hBlTxID h) @
                  hBlRoot h @ hPrevAlh h @ putUint16 (u16_of_int (hVersion h));
          body = concat (map serialize_entry (take (nat (hNEntries h)) (entries tx)))
      in if hVersion h = 0
         then Inr (fixed @ putUint16 (u16_of_int (hNEntries h)) @ body @ Alh D h)
         else if hVersion h = 1
         then Inr (fixed @ putUint16 (u16_of_int (int (length (md_bytes (hMetadata h))))) @
                   md_bytes (hMetadata h) @ putUint32 (u32_of_int (hNEntries h)) @
                   body @ Alh D h)
         else Inl ErrPanic)"

text \<open>The second half of \<^verbatim>\<open>performPrecommit\<close>, from the append to the tx log on.\<close>

definition precommit_append :: "deps \<Rightarrow> ImmuStore \<Rightarrow> Tx \<Rightarrow> byte list \<Rightarrow> error option \<times> ImmuStore" where
  "precommit_append D s tx txbs =
     (let alh = Alh D (header tx); txSize = int (length txbs) in
      case txLog_Append s txbs of
        (Inl e, s1) \<Rightarrow> (Some e, s1)
      | (Inr txOff, s1) \<Rightarrow>
          (case io_step s1 of
             (Some e, s2) \<Rightarrow> (Some e, s2)
           | (None, s2) \<Rightarrow>
               (case aht_ResetSize s2 (inmemPrecommittedTxID s2) of
                  (Some e, s3) \<Rightarrow> (Some e, s3)
                | (None, s3) \<Rightarrow>
                    (case aht_Append s3 alh of
                       (Some e, s4) \<Rightarrow> (Some e, s4)
                     | (None, s4) \<Rightarrow>
                         (let s5 = s4\<lparr>inmemPrecommittedTxID := inmemPrecommittedTxID s4 + 1,
                                       inmemPrecommittedAlh := alh,
                                       precommittedTxLogSize := precommittedTxLogSize s4 + txSize\<rparr>;
                              s6 = s5\<lparr>inmemPrecommitWHub :=
                                         doneUpto (inmemPrecommitWHub s5) (inmemPrecommittedTxID s5)\<rparr>
                          in case pb_put (cLogBuf s6) (inmemPrecommittedTxID s6) alh txOff txSize of
                               Inl e \<Rightarrow> (Some e, s6)
                             | Inr b \<Rightarrow>
                                 (let s7 = s6\<lparr>cLogBuf := b\<rparr> in
                                  if \<not> synced s7
                                  then mayCommit (s7\<lparr>durablePrecommitWHub :=
                                         doneUpto (durablePrecommitWHub s7) (inmemPrecommittedTxID s7)\<rparr>)
                                  else (None, s7)))))))"

text \<open>\<^verbatim>\<open>performPrecommit\<close> after its back-pressure check: the header is completed, the
  transaction serialized and appended.\<close>

definition performPrecommit_body :: "deps \<Rightarrow> ImmuStore \<Rightarrow> Tx \<Rightarrow> int \<Rightarrow> u64
    \<Rightarrow> error option \<times> Tx \<times> ImmuStore" where
  "performPrecommit_body D s tx ts blTxID =
     (case txLog_SetOffset s (precommittedTxLogSize s) of
        (Some e, s1) \<Rightarrow> (Some e, tx, s1)
      | (None, s1) \<Rightarrow>
          (let tx1 = tx\<lparr>header := (header tx)\<lparr>hID := inmemPrecommittedTxID s1 + 1,
                                               hTs := ts, hBlTxID := blTxID\<rparr>\<rparr>;
               (rr, s2) = (if blTxID > 0 then aht_RootAt D s1 blTxID
                           else (Inr (hBlRoot (header tx1)), s1))
           in case (case rr of
                      Inl e \<Rightarrow> if e = ErrEmptyTree then Inr zero_digest else Inl e
                    | Inr root \<Rightarrow> Inr root) of
                Inl e \<Rightarrow> (Some e, tx1, s2)
              | Inr blRoot \<Rightarrow>
                  (let tx2 = tx1\<lparr>header := (header tx1)\<lparr>hBlRoot := blRoot\<rparr>\<rparr> in
                   if hID (header tx2) \<le> hBlTxID (header tx2)
                   then (Some ErrUnexpectedLinkingError, tx2, s2)
                   else
                     (let tx3 = tx2\<lparr>header := (header tx2)\<lparr>hPrevAlh := inmemPrecommittedAlh s2\<rparr>\<rparr> in
                      case serialize_tx D tx3 of
                        Inl e \<Rightarrow> (Some e, tx3, s2)
                      | Inr txbs \<Rightarrow>
                          (case precommit_append D s2 tx3 txbs of
                             (r, s3) \<Rightarrow> (r, tx3, s3))))))"

definition performPrecommit :: "deps \<Rightarrow> ImmuStore \<Rightarrow> Tx \<Rightarrow> int \<Rightarrow> u64
    \<Rightarrow> error option \<times> Tx \<times> ImmuStore" where
  "performPrecommit D s tx ts blTxID =
     (if synced s \<and>
         committedTxID s + u64_of_int (maxActiveTransactions s) \<le> inmemPrecommittedTxID s
      then (Some ErrMaxActiveTransactionsLimitExceeded, tx, s)
      else performPrecommit_body D s tx ts blTxID)"

subsection \<open>\<^verbatim>\<open>precommit\<close>\<close>

text \<open>\<^verbatim>\<open>WatchersHub.WaitFor\<close> returns at once when the mark has been reached; the call
  can fail in the hub (closed, too many waiters), and a wait for a mark that no
  operation in flight can raise ends with the caller's context.\<close>

definition waitFor :: "ImmuStore \<Rightarrow> u64 \<Rightarrow> u64 \<Rightarrow> error option \<times> ImmuStore" where
  "waitFor s mark t =
     (case io_step s of
        (Some e, s1) \<Rightarrow> (Some e, s1)
      | (None, s1) \<Rightarrow> if t \<le> mark then (None, s1) else (Some ErrContextDone, s1))"

definition fill_entry :: "deps \<Rightarrow> EntrySpec \<Rightarrow> TxEntry" where
  "fill_entry D e =
     \<lparr>te_k = (case Key e of None \<Rightarrow> [] | Some k \<Rightarrow> k),
      te_md = Metadata e,
      te_vLen = int (length (Value e)),
      te_hVal = (if isValueTruncated e then hashValue e else d_sha256 D (Value e)),
      te_vOff = 0\<rparr>"

fun set_vOffs :: "TxEntry list \<Rightarrow> int list \<Rightarrow> TxEntry list" where
  "set_vOffs (e # es) (off # offs) = e\<lparr>te_vOff := off\<rparr> # set_vOffs es offs"
| "set_vOffs es offs = es"

text \<open>The checks of \<^verbatim>\<open>precommit\<close> on the expected header of a replicated transaction,
  made before the store's mutex is taken.\<close>

definition check_expected_header :: "deps \<Rightarrow> ImmuStore \<Rightarrow> Tx \<Rightarrow> TxHeader \<Rightarrow> bool
    \<Rightarrow> error option \<times> ImmuStore" where
  "check_expected_header D s tx hdr skipIntegrityCheck =
     (if \<not> skipIntegrityCheck \<and> hEh (header tx) \<noteq> hEh hdr then (Some ErrIllegalArguments, s)
      else
        (let lastPreCommittedTxID = inmemPrecommittedTxID s in
         if lastPreCommittedTxID \<ge> hID hdr then (Some ErrTxAlreadyCommitted, s)
         else if hID hdr > lastPreCommittedTxID + u64_of_int (maxActiveTransactions s)
         then (Some ErrMaxActiveTransactionsLimitExceeded, s)
         else
           (case waitFor s (inmemPrecommitWHub s) (hID hdr - 1) of
              (Some e, s1) \<Rightarrow> (Some e, s1)
            | (None, s1) \<Rightarrow>
                (let (rr, s2) = (if hBlTxID hdr > 0 then aht_RootAt D s1 (hBlTxID hdr)
                                 else (Inr zero_digest, s1))
                 in case (case rr of
                            Inl e \<Rightarrow> if e = ErrEmptyTree then Inr zero_digest else Inl e
                          | Inr root \<Rightarrow> Inr root) of
                      Inl e \<Rightarrow> (Some e, s2)
                    | Inr blRoot \<Rightarrow>
                        if blRoot \<noteq> hBlRoot hdr then (Some ErrIllegalArguments, s2)
                        else (None, s2)))))"

text \<open>The checks of \<^verbatim>\<open>precommit\<close> made under the store's mutex, before
  \<^verbatim>\<open>performPrecommit\<close> is called: they yield the timestamp and the \<open>BlTxID\<close> of the
  new transaction.\<close>

definition precommit_locked_checks :: "ImmuStore \<Rightarrow> OngoingTx \<Rightarrow> TxHeader option \<Rightarrow> int
    \<Rightarrow> (error + int \<times> u64) \<times> ImmuStore" where
  "precommit_locked_checks s otx hdr now =
     (if closed s then (Inl ErrAlreadyClosed, s)
      else
        (let currPrecomittedTxID = inmemPrecommittedTxID s;
             currPrecommittedAlh = inmemPrecommittedAlh s;
             ts = (case hdr of None \<Rightarrow> now | Some h \<Rightarrow> hTs h);
             blTxID = (case hdr of None \<Rightarrow> aht_Size s | Some h \<Rightarrow> hBlTxID h);
             ordered = (case hdr of
                          None \<Rightarrow> None
                        | Some h \<Rightarrow>
                            if currPrecomittedTxID > hID h - 1 then Some ErrTxAlreadyCommitted
                            else if currPrecomittedTxID < hID h - 1 then Some ErrUnexpectedError
                            else if currPrecommittedAlh \<noteq> hPrevAlh h then Some ErrIllegalArguments
                            else None)
         in case ordered of
              Some e \<Rightarrow> (Inl e, s)
            | None \<Rightarrow>
                (case (if o_preconditions otx \<noteq> []
                       then (case io_step s of
                               (Some e, s1) \<Rightarrow> (Some e, s1)
                             | (None, s1) \<Rightarrow> (o_checkPreconditions otx, s1))
                       else (None, s)) of
                   (Some e, s1) \<Rightarrow> (Inl e, s1)
                 | (None, s1) \<Rightarrow> (Inr (ts, blTxID), s1))))"

text \<open>Everything \<^verbatim>\<open>precommit\<close> does before it calls \<^verbatim>\<open>performPrecommit\<close>: the
  validation, the allocation of a transaction holder, the append of the values, the
  hash tree of the entries, the checks against the expected header and the checks under
  the mutex. The result is the transaction to precommit with its timestamp and
  \<open>BlTxID\<close>. The values are appended by a goroutine of their own, whose result is
  awaited before any later check: in the model the append comes first.\<close>

definition precommit_prepare :: "deps \<Rightarrow> ImmuStore \<Rightarrow> OngoingTx option \<Rightarrow> TxHeader option \<Rightarrow> bool
    \<Rightarrow> int \<Rightarrow> (error + Tx \<times> int \<times> u64) \<times> ImmuStore" where
  "precommit_prepare D s otx0 hdr skipIntegrityCheck now =
     (case otx0 of
        None \<Rightarrow> (Inl ErrIllegalArguments, s)
      | Some otx \<Rightarrow>
          (case o_validateAgainst otx hdr of
             Some e \<Rightarrow> (Inl e, s)
           | None \<Rightarrow>
               if length (o_entries otx) = 0 \<and> md_IsEmpty (o_metadata otx)
               then (Inl ErrNoEntriesProvided, s)
               else
                 (case validateEntries D s (o_entries otx) of
                    Some e \<Rightarrow> (Inl e, s)
                  | None \<Rightarrow>
                      (case validatePreconditions s (o_preconditions otx) of
                         Some e \<Rightarrow> (Inl e, s)
                       | None \<Rightarrow>
                           (case fetchAllocTx s of
                              Some e \<Rightarrow> (Inl e, s)
                            | None \<Rightarrow>
                                (case appendData s (o_entries otx) of
                                   (r, s1) \<Rightarrow>
                                     (let h0 = new_TxHeader\<lparr>
                                            hVersion := (case hdr of None \<Rightarrow> writeTxHeaderVersion s1
                                                         | Some h \<Rightarrow> hVersion h),
                                            hMetadata := o_metadata otx,
                                            hNEntries := int (length (o_entries otx))\<rparr>;
                                          txes = map (fill_entry D) (o_entries otx)
                                      in case d_buildHashTree D txes of
                                           Inl e \<Rightarrow> (Inl e, s1)
                                         | Inr eh \<Rightarrow>
                                             (let tx = \<lparr>header = h0\<lparr>hEh := eh\<rparr>, entries = txes\<rparr> in
                                              case r of
                                                Inl e \<Rightarrow> (Inl e, s1)
                                              | Inr offsets \<Rightarrow>
                                                  (case (case hdr of
                                                           None \<Rightarrow> (None, s1)
                                                         | Some h \<Rightarrow>
                                                             check_expected_header D s1 tx h
                                                               skipIntegrityCheck) of
                                                     (Some e, s2) \<Rightarrow> (Inl e, s2)
                                                   | (None, s2) \<Rightarrow>
                                                       (case precommit_locked_checks s2 otx hdr now of
                                                          (Inl e, s3) \<Rightarrow> (Inl e, s3)
                                                        | (Inr (ts, blTxID), s3) \<Rightarrow>
                                                            (Inr (tx\<lparr>entries := set_vOffs (entries tx) offsets\<rparr>,
                                                                  ts, blTxID), s3)))))))))))"

text \<open>\<^verbatim>\<open>precommit\<close>. \<open>now\<close> is the reading of the time source.\<close>

definition precommit :: "deps \<Rightarrow> ImmuStore \<Rightarrow> OngoingTx option \<Rightarrow> TxHeader option \<Rightarrow> bool \<Rightarrow> int
    \<Rightarrow> (error + TxHeader) \<times> ImmuStore" where
  "precommit D s otx0 hdr skipIntegrityCheck now =
     (case precommit_prepare D s otx0 hdr skipIntegrityCheck now of
        (Inl e, s1) \<Rightarrow> (Inl e, s1)
      | (Inr (tx, ts, blTxID), s1) \<Rightarrow>
          (case performPrecommit D s1 tx ts blTxID of
             (Some e, tx2, s2) \<Rightarrow> (Inl e, s2)
           | (None, tx2, s2) \<Rightarrow>
               (Inr (header tx2),
                if (case otx0 of None \<Rightarrow> False | Some otx \<Rightarrow> o_requireMVCCOnFollowingTxs otx)
                then s2\<lparr>mandatoryMVCCUpToTxID := hID (header tx2)\<rparr> else s2)))"


subsection \<open>Auxiliary predicates for the precommit path\<close>

text \<open>\<open>frame_prepare s s'\<close>: the two stores differ at most in the value logs, the list of
  unlocked value logs and the schedule of failures.\<close>

definition frame_prepare :: "ImmuStore \<Rightarrow> ImmuStore \<Rightarrow> bool" where
  "frame_prepare s s' \<longleftrightarrow>
     s' = s\<lparr>vLogs := vLogs s', vLogUnlockedList := vLogUnlockedList s', faults := faults s'\<rparr>"

text \<open>The key of an entry in the base-64 form under which \<^verbatim>\<open>validateEntries\<close> records
  it, and the two length conditions on one entry.\<close>

definition enc_key :: "deps \<Rightarrow> EntrySpec \<Rightarrow> string option" where
  "enc_key D x = map_option (d_b64 D) (Key x)"

definition key_too_long :: "ImmuStore \<Rightarrow> EntrySpec \<Rightarrow> bool" where
  "key_too_long s x = (case Key x of None \<Rightarrow> False | Some k \<Rightarrow> int (length k) > maxKeyLen s)"

definition value_too_long :: "ImmuStore \<Rightarrow> EntrySpec \<Rightarrow> bool" where
  "value_too_long s x = (int (length (Value x)) > maxValueLen s)"

text \<open>The five conditions of the specification on the entries of a transaction.\<close>

definition entries_rejected :: "ImmuStore \<Rightarrow> EntrySpec list \<Rightarrow> error \<Rightarrow> bool" where
  "entries_rejected s es e \<longleftrightarrow>
     (e = ErrMaxTxEntriesLimitExceeded \<and> int (length es) > maxTxEntries s) \<or>
     (e = ErrNullKey \<and> (\<exists>x\<in>set es. Key x = None)) \<or>
     (e = ErrMaxKeyLenExceeded \<and> (\<exists>x\<in>set es. key_too_long s x)) \<or>
     (e = ErrMaxValueLenExceeded \<and> (\<exists>x\<in>set es. value_too_long s x)) \<or>
     (e = ErrDuplicatedKey \<and> \<not> distinct (map Key es))"

section \<open>Replication entry point\<close>

text \<open>Reads of a big-endian integer from a slice: \<^verbatim>\<open>binary.BigEndian.Uint16(b[i:])\<close>
  panics when fewer bytes are left than the integer needs.\<close>

definition rd_u16 :: "byte list \<Rightarrow> int \<Rightarrow> error + int" where
  "rd_u16 bs i =
     (if i < 0 \<or> int (length bs) < i + 2 then Inl ErrPanic
      else Inr (uint (be_decode (take 2 (drop (nat i) bs)) :: u16)))"

definition rd_u32 :: "byte list \<Rightarrow> int \<Rightarrow> error + int" where
  "rd_u32 bs i =
     (if i < 0 \<or> int (length bs) < i + 4 then Inl ErrPanic
      else Inr (uint (be_decode (take 4 (drop (nat i) bs)) :: u32)))"

definition slice :: "byte list \<Rightarrow> int \<Rightarrow> int \<Rightarrow> byte list" where
  "slice bs i j = take (nat (j - i)) (drop (nat i) bs)"

text \<open>The loop of \<^verbatim>\<open>ReplicateTx\<close> that decodes the entries of an exported
  transaction: \<open>n\<close> entries are left, \<open>i\<close> is the read position.\<close>

fun decode_entries :: "deps \<Rightarrow> byte list \<Rightarrow> nat \<Rightarrow> int \<Rightarrow> EntrySpec list
    \<Rightarrow> error + (int \<times> EntrySpec list)" where
  "decode_entries D bs 0 i acc = Inr (i, acc)"
| "decode_entries D bs (Suc n) i acc =
     (if int (length bs) < i + 2 * 2 + 4 then Inl ErrIllegalArguments
      else
        (case rd_u16 bs i of
           Inl e \<Rightarrow> Inl e
         | Inr kLen \<Rightarrow>
             (let i1 = i + 2 in
              if int (length bs) < i1 + 2 + 4 + kLen then Inl ErrIllegalArguments
              else
                (let key = slice bs i1 (i1 + kLen); i2 = i1 + kLen in
                 case rd_u16 bs i2 of
                   Inl e \<Rightarrow> Inl e
                 | Inr mdLen \<Rightarrow>
                     (let i3 = i2 + 2 in
                      if int (length bs) < i3 + mdLen then Inl ErrIllegalArguments
                      else
                        (case (if mdLen > 0
                               then (case d_kvmdReadFrom D (slice bs i3 (i3 + mdLen)) of
                                       Inl e \<Rightarrow> Inl e
                                     | Inr md \<Rightarrow> Inr (Some md, i3 + mdLen))
                               else Inr (None, i3)) of
                           Inl e \<Rightarrow> Inl e
                         | Inr (md, i4) \<Rightarrow>
                             (case rd_u32 bs i4 of
                                Inl e \<Rightarrow> Inl e
                              | Inr vLen \<Rightarrow>
                                  (let i5 = i4 + 4 in
                                   if int (length bs) < i5 + vLen then Inl ErrIllegalArguments
                                   else decode_entries D bs n (i5 + vLen)
                                          (acc @ [\<lparr>Key = Some key, Metadata = md,
                                                   Value = slice bs i5 (i5 + vLen),
                                                   isValueTruncated = False,
                                                   hashValue = zero_digest\<rparr>])))))))))"

text \<open>The trailing information on truncated values, when present.\<close>

definition decode_truncated :: "byte list \<Rightarrow> int \<Rightarrow> error + (int \<times> bool)" where
  "decode_truncated bs i =
     (if i < int (length bs) then
        (case rd_u16 bs i of
           Inl e \<Rightarrow> Inl e
         | Inr tLen \<Rightarrow>
             (let i1 = i + 2 in
              if int (length bs) < i1 + tLen then Inl ErrIllegalArguments
              else
                (let v = slice bs i1 (i1 + tLen) in
                 if length v > 0 \<and> hd v > 1 then Inl ErrIllegalArguments
                 else if length v = 0 then Inl ErrPanic
                 else Inr (i1 + tLen, hd v = 1))))
      else Inr (i, False))"

definition byte32 :: "byte list \<Rightarrow> digest" where
  "byte32 bs = take 32 bs @ replicate (32 - length bs) 0"

definition replica_entry :: "bool \<Rightarrow> EntrySpec \<Rightarrow> EntrySpec" where
  "replica_entry isTruncated e =
     (if isTruncated
      then e\<lparr>Value := [], hashValue := byte32 (Value e), isValueTruncated := isTruncated\<rparr>
      else e\<lparr>isValueTruncated := isTruncated\<rparr>)"

definition decode_exportedTx :: "deps \<Rightarrow> byte list \<Rightarrow> error + (TxHeader \<times> OngoingTx)" where
  "decode_exportedTx D exportedTx =
     (if length exportedTx = 0 then Inl ErrIllegalArguments
      else if length exportedTx < 4 then Inl ErrIllegalArguments
      else
        (case rd_u32 exportedTx 0 of
           Inl e \<Rightarrow> Inl e
         | Inr hdrLen \<Rightarrow>
             if int (length exportedTx) < 4 + hdrLen then Inl ErrIllegalArguments
             else
               (case d_hdrReadFrom D (slice exportedTx 4 (4 + hdrLen)) of
                  Inl e \<Rightarrow> Inl e
                | Inr hdr \<Rightarrow>
                    (case decode_entries D exportedTx (nat (hNEntries hdr)) (4 + hdrLen) [] of
                       Inl e \<Rightarrow> Inl e
                     | Inr (i, es) \<Rightarrow>
                         (case decode_truncated exportedTx i of
                            Inl e \<Rightarrow> Inl e
                          | Inr (i1, isTruncated) \<Rightarrow>
                              if i1 \<noteq> int (length exportedTx) then Inl ErrIllegalArguments
                              else
                                (case d_newTxSpec D (hMetadata hdr)
                                        (map (replica_entry isTruncated) es) of
                                   Inl e \<Rightarrow> Inl e
                                 | Inr txSpec \<Rightarrow> Inr (hdr, txSpec)))))))"

text \<open>\<^verbatim>\<open>ReplicateTx\<close> returns a header and an error; when waiting for the indexer
  fails both are returned, as the transaction is committed by then.\<close>

definition ReplicateTx :: "deps \<Rightarrow> ImmuStore \<Rightarrow> byte list \<Rightarrow> bool \<Rightarrow> bool \<Rightarrow> int
    \<Rightarrow> (TxHeader option \<times> error option) \<times> ImmuStore" where
  "ReplicateTx D s exportedTx skipIntegrityCheck waitForIndexing now =
     (case decode_exportedTx D exportedTx of
        Inl e \<Rightarrow> ((None, Some e), s)
      | Inr (hdr, txSpec) \<Rightarrow>
          (case precommit D s (Some txSpec) (Some hdr) skipIntegrityCheck now of
             (Inl e, s1) \<Rightarrow> ((None, Some e), s1)
           | (Inr txHdr, s1) \<Rightarrow>
               (case waitFor s1 (durablePrecommitWHub s1) (hID txHdr) of
                  (Some e, s2) \<Rightarrow> ((None, Some e), s2)
                | (None, s2) \<Rightarrow>
                    if \<not> useExternalCommitAllowance s2 then
                      (case waitFor s2 (commitWHub s2) (hID txHdr) of
                         (Some e, s3) \<Rightarrow> ((None, Some e), s3)
                       | (None, s3) \<Rightarrow>
                           if waitForIndexing
                           then (case io_step s3 of
                                   (Some e, s4) \<Rightarrow> ((Some txHdr, Some e), s4)
                                 | (None, s4) \<Rightarrow> ((Some txHdr, None), s4))
                           else ((Some txHdr, None), s3))
                    else ((Some txHdr, None), s2))))"


section \<open>Proofs\<close>

text \<open>Reading committed transactions is done by collaborators defined outside the file
  under study (the tx reader and the parser of a serialized transaction). They enter
  as parameters: \<open>ts_newReader i\<close> is the outcome of \<^verbatim>\<open>NewTxReader(i, ...)\<close>,
  \<open>ts_read i\<close> what the reader yields when it reads the transaction \<open>i\<close>, and
  \<open>ts_readHeader i\<close> the result of \<^verbatim>\<open>ReadTxHeader(i, false, false)\<close>.\<close>

record TxSource =
  ts_newReader :: "u64 \<Rightarrow> error option"
  ts_read :: "u64 \<Rightarrow> error + TxHeader"
  ts_readHeader :: "u64 \<Rightarrow> error + TxHeader"

record LinearProof =
  lp_SourceTxID :: u64
  lp_TargetTxID :: u64
  lp_Terms :: "digest list"

record LinearAdvanceProof =
  lap_LinearProofTerms :: "digest list"
  lap_InclusionProofs :: "digest list list"

text \<open>A nil slice is the empty list, a nil pointer is \<open>None\<close>.\<close>

record DualProof =
  dp_SourceTxHeader :: TxHeader
  dp_TargetTxHeader :: TxHeader
  dp_InclusionProof :: "digest list"
  dp_ConsistencyProof :: "digest list"
  dp_TargetBlTxAlh :: digest
  dp_LastInclusionProof :: "digest list"
  dp_LinearProof :: "LinearProof option"
  dp_LinearAdvanceProof :: "LinearAdvanceProof option"

text \<open>The loop of \<^verbatim>\<open>LinearProof\<close>: \<open>n\<close> terms are left to read, \<open>i\<close> is the last
  transaction read.\<close>

fun linear_terms :: "deps \<Rightarrow> TxSource \<Rightarrow> nat \<Rightarrow> u64 \<Rightarrow> digest list \<Rightarrow> error + digest list" where
  "linear_terms D T 0 i terms = Inr terms"
| "linear_terms D T (Suc n) i terms =
     (case ts_read T (i + 1) of
        Inl e \<Rightarrow> Inl e
      | Inr h \<Rightarrow> linear_terms D T n (i + 1) (terms @ [innerHash D h]))"

definition LinearProof :: "deps \<Rightarrow> ImmuStore \<Rightarrow> TxSource \<Rightarrow> u64 \<Rightarrow> u64 \<Rightarrow> error + LinearProof" where
  "LinearProof D s T sourceTxID targetTxID =
     (if sourceTxID = 0 \<or> sourceTxID > targetTxID then Inl ErrSourceTxNewerThanTargetTx
      else
        (case fetchAllocTx s of
           Some e \<Rightarrow> Inl e
         | None \<Rightarrow>
             (case ts_newReader T sourceTxID of
                Some e \<Rightarrow> Inl e
              | None \<Rightarrow>
                  (case ts_read T sourceTxID of
                     Inl e \<Rightarrow> Inl e
                   | Inr h \<Rightarrow>
                       (case linear_terms D T (unat (targetTxID - sourceTxID + 1) - 1)
                               sourceTxID [Alh D h] of
                          Inl e \<Rightarrow> Inl e
                        | Inr terms \<Rightarrow>
                            Inr \<lparr>lp_SourceTxID = sourceTxID, lp_TargetTxID = targetTxID,
                                 lp_Terms = terms\<rparr>)))))"

text \<open>The loop of \<^verbatim>\<open>LinearAdvanceProof\<close> over \<open>txID\<close> from \<open>sourceTxID + 1\<close> up to, and
  not including, \<open>targetTxID\<close>: the inclusion proof of \<open>txID\<close> in the tree of size
  \<open>targetBlTxID\<close>, then the inner hash of the next transaction.\<close>

function advance_terms :: "deps \<Rightarrow> ImmuStore \<Rightarrow> TxSource \<Rightarrow> u64 \<Rightarrow> u64 \<Rightarrow> u64
    \<Rightarrow> digest list \<times> digest list list \<Rightarrow> error + (digest list \<times> digest list list)" where
  "advance_terms D s T targetTxID targetBlTxID txID acc =
     (if txID < targetTxID then
        (case d_inclusionProof D (aht s) txID targetBlTxID of
           Inl e \<Rightarrow> Inl e
         | Inr inclusionProof \<Rightarrow>
             (case ts_read T (txID + 1) of
                Inl e \<Rightarrow> Inl e
              | Inr h \<Rightarrow>
                  advance_terms D s T targetTxID targetBlTxID (txID + 1)
                    (fst acc @ [innerHash D h], snd acc @ [inclusionProof])))
      else Inr acc)"
  by pat_completeness auto
termination
proof (relation "measure (\<lambda>(D, s, T, targetTxID, targetBlTxID, txID, acc). unat targetTxID - unat txID)")
  show "wf (measure (\<lambda>(D, s, T, targetTxID, targetBlTxID, txID, acc). unat targetTxID - unat txID))"
    by simp
next
  fix D :: deps and s :: ImmuStore and T :: TxSource and targetTxID targetBlTxID txID :: u64
    and acc :: "digest list \<times> digest list list" and x2 :: "digest list" and x2a :: TxHeader
  assume lt: "txID < targetTxID"
  have "unat targetTxID < 2 ^ 64" using unsigned_less[of targetTxID] by simp
  moreover from lt have "unat txID < unat targetTxID" by (simp add: word_less_nat_alt)
  ultimately have "unat txID + unat (1::u64) < 2 ^ LENGTH(64)" by simp
  then have "unat (txID + 1) = unat txID + unat (1::u64)" by (simp only: unat_add_lem)
  then have "unat (txID + 1) = unat txID + 1" by simp
  with lt show "((D, s, T, targetTxID, targetBlTxID, txID + 1,
                  fst acc @ [innerHash D x2a], snd acc @ [x2]),
                 (D, s, T, targetTxID, targetBlTxID, txID, acc))
                \<in> measure (\<lambda>(D, s, T, targetTxID, targetBlTxID, txID, acc). unat targetTxID - unat txID)"
    by (simp add: word_less_nat_alt)
qed

text \<open>\<^verbatim>\<open>LinearAdvanceProof\<close>. The slice of linear terms is made with
  \<open>targetTxID - sourceTxID\<close> elements and its element 0 is written at once, which
  panics when that length is 0.\<close>

definition LinearAdvanceProof :: "deps \<Rightarrow> ImmuStore \<Rightarrow> TxSource \<Rightarrow> u64 \<Rightarrow> u64 \<Rightarrow> u64
    \<Rightarrow> error + LinearAdvanceProof option" where
  "LinearAdvanceProof D s T sourceTxID targetTxID targetBlTxID =
     (if targetTxID < sourceTxID then Inl ErrSourceTxNewerThanTargetTx
      else if targetTxID \<le> sourceTxID + 1 then Inr None
      else
        (case fetchAllocTx s of
           Some e \<Rightarrow> Inl e
         | None \<Rightarrow>
             (case ts_newReader T (sourceTxID + 1) of
                Some e \<Rightarrow> Inl e
              | None \<Rightarrow>
                  (case ts_read T (sourceTxID + 1) of
                     Inl e \<Rightarrow> Inl e
                   | Inr h \<Rightarrow>
                       if targetTxID - sourceTxID = 0 then Inl ErrPanic
                       else
                         (case advance_terms D s T targetTxID targetBlTxID (sourceTxID + 1)
                                 ([Alh D h], []) of
                            Inl e \<Rightarrow> Inl e
                          | Inr (terms, proofs) \<Rightarrow>
                              Inr (Some \<lparr>lap_LinearProofTerms = terms,
                                         lap_InclusionProofs = proofs\<rparr>))))))"

definition DualProof :: "deps \<Rightarrow> ImmuStore \<Rightarrow> TxSource \<Rightarrow> TxHeader option \<Rightarrow> TxHeader option
    \<Rightarrow> error + DualProof" where
  "DualProof D s T sourceTxHdr0 targetTxHdr0 =
     (case (sourceTxHdr0, targetTxHdr0) of
        (Some sourceTxHdr, Some targetTxHdr) \<Rightarrow>
          if hID sourceTxHdr > hID targetTxHdr then Inl ErrSourceTxNewerThanTargetTx
          else
            (let proof0 = \<lparr>dp_SourceTxHeader = sourceTxHdr, dp_TargetTxHeader = targetTxHdr,
                           dp_InclusionProof = [], dp_ConsistencyProof = [],
                           dp_TargetBlTxAlh = zero_digest, dp_LastInclusionProof = [],
                           dp_LinearProof = None, dp_LinearAdvanceProof = None\<rparr>
             in case (if hID sourceTxHdr < hBlTxID targetTxHdr
                      then (case d_inclusionProof D (aht s) (hID sourceTxHdr) (hBlTxID targetTxHdr) of
                              Inl e \<Rightarrow> Inl e
                            | Inr p \<Rightarrow> Inr (proof0\<lparr>dp_InclusionProof := p\<rparr>))
                      else Inr proof0) of
                  Inl e \<Rightarrow> Inl e
                | Inr proof1 \<Rightarrow>
                    if hBlTxID sourceTxHdr > hBlTxID targetTxHdr then Inl ErrCorruptedTxData
                    else
                      (case (if hBlTxID sourceTxHdr > 0
                             then (case d_consistencyProof D (aht s) (hBlTxID sourceTxHdr)
                                          (hBlTxID targetTxHdr) of
                                     Inl e \<Rightarrow> Inl e
                                   | Inr p \<Rightarrow> Inr (proof1\<lparr>dp_ConsistencyProof := p\<rparr>))
                             else Inr proof1) of
                         Inl e \<Rightarrow> Inl e
                       | Inr proof2 \<Rightarrow>
                           (case (if hBlTxID targetTxHdr > 0
                                  then (case ts_readHeader T (hBlTxID targetTxHdr) of
                                          Inl e \<Rightarrow> Inl e
                                        | Inr targetBlTxHdr \<Rightarrow>
                                            (case d_inclusionProof D (aht s) (hBlTxID targetTxHdr)
                                                    (hBlTxID targetTxHdr) of
                                               Inl e \<Rightarrow> Inl e
                                             | Inr p \<Rightarrow>
                                                 Inr (proof2\<lparr>dp_TargetBlTxAlh := Alh D targetBlTxHdr,
                                                             dp_LastInclusionProof := p\<rparr>)))
                                  else Inr proof2) of
                              Inl e \<Rightarrow> Inl e
                            | Inr proof3 \<Rightarrow>
                                (case LinearProof D s T
                                        (maxUint64 (hID sourceTxHdr) (hBlTxID targetTxHdr))
                                        (hID targetTxHdr) of
                                   Inl e \<Rightarrow> Inl e
                                 | Inr lproof \<Rightarrow>
                                     (case LinearAdvanceProof D s T (hBlTxID sourceTxHdr)
                                             (minUint64 (hID sourceTxHdr) (hBlTxID targetTxHdr))
                                             (hBlTxID targetTxHdr) of
                                        Inl e \<Rightarrow> Inl e
                                      | Inr laproof \<Rightarrow>
                                          Inr (proof3\<lparr>dp_LinearProof := Some lproof,
                                                      dp_LinearAdvanceProof := laproof\<rparr>))))))
      | _ \<Rightarrow> Inl ErrIllegalArguments)"


section \<open>Recovery on open\<close>

text \<open>The recovery section of \<^verbatim>\<open>OpenWith\<close>: from the size of the commit log to the end
  of the loop that loads the precommitted transactions. What \<^verbatim>\<open>OpenWith\<close> does before
  (validation of the options and of the metadata) and after (caches, catching up of the
  hash tree, watchers, indexer, syncer) is not represented. The local variables of the
  section are the fields of \<open>Recovered\<close>; \<open>rc_faults\<close> is the schedule of failures of
  the calls into the two logs and the tx pool, as in the store.\<close>

record Recovered =
  rc_cLog :: appendable
  rc_committedTxID :: u64
  rc_committedTxOffset :: int
  rc_committedTxSize :: int
  rc_committedTxLogSize :: int
  rc_committedAlh :: digest
  rc_precommittedTxID :: u64
  rc_precommittedAlh :: digest
  rc_precommittedTxLogSize :: int
  rc_cLogBuf :: precommitBuffer
  rc_faults :: "error option list"

definition fault_step :: "error option list \<Rightarrow> error option \<times> error option list" where
  "fault_step fs = (case fs of [] \<Rightarrow> (None, []) | f # fs' \<Rightarrow> (f, fs'))"

text \<open>Lines 325 to 365: the commit log is cut back to a whole number of 12-byte records,
  and the last record gives the offset and the size of the last committed
  transaction.\<close>

definition open_commit_log :: "appendable \<Rightarrow> appendable \<Rightarrow> error option list
    \<Rightarrow> error + Recovered" where
  "open_commit_log cLog0 txLog0 fs0 =
     (case fault_step fs0 of
        (Some e, fs1) \<Rightarrow> Inl e
      | (None, fs1) \<Rightarrow>
          (let cLogSize0 = app_Size cLog0;
               rem = cLogSize0 mod 12;
               cLogSize = (if rem > 0 then cLogSize0 - rem else cLogSize0)
           in case (if rem > 0
                    then (case fault_step fs1 of
                            (Some e, fs2) \<Rightarrow> Inl e
                          | (None, fs2) \<Rightarrow>
                              (case app_SetOffset cLog0 cLogSize of
                                 Inl e \<Rightarrow> Inl e
                               | Inr c \<Rightarrow> Inr (c, fs2)))
                    else Inr (cLog0, fs1)) of
                Inl e \<Rightarrow> Inl e
              | Inr (cLog1, fs2) \<Rightarrow>
                  (let r0 = \<lparr>rc_cLog = cLog1, rc_committedTxID = 0, rc_committedTxOffset = 0,
                             rc_committedTxSize = 0, rc_committedTxLogSize = 0,
                             rc_committedAlh = [], rc_precommittedTxID = 0,
                             rc_precommittedAlh = [], rc_precommittedTxLogSize = 0,
                             rc_cLogBuf = newPrecommitBuffer 0, rc_faults = fs2\<rparr>
                   in if cLogSize > 0 then
                        (case fault_step fs2 of
                           (Some e, fs3) \<Rightarrow> Inl e
                         | (None, fs3) \<Rightarrow>
                             (case app_ReadAt cLog1 12 (cLogSize - 12) of
                                Inl e \<Rightarrow> Inl e
                              | Inr b \<Rightarrow>
                                  (let committedTxOffset = int_of_u64 (uint64_be b);
                                       committedTxSize = uint (uint32_be (drop 8 b));
                                       committedTxLogSize = committedTxOffset + committedTxSize;
                                       committedTxID = (u64_of_int cLogSize) div 12
                                   in case fault_step fs3 of
                                        (Some e, fs4) \<Rightarrow> Inl e
                                      | (None, fs4) \<Rightarrow>
                                          if app_Size txLog0 < committedTxLogSize
                                          then Inl ErrCorruptedTxData
                                          else Inr (r0\<lparr>rc_committedTxID := committedTxID,
                                                       rc_committedTxOffset := committedTxOffset,
                                                       rc_committedTxSize := committedTxSize,
                                                       rc_committedTxLogSize := committedTxLogSize,
                                                       rc_faults := fs4\<rparr>))))
                      else Inr r0)))"

text \<open>A reader on the tx log from a given offset: the bytes it has still to read.\<close>

definition reader_from :: "appendable \<Rightarrow> int \<Rightarrow> byte list" where
  "reader_from a off = drop (nat off) (a_bytes a)"

text \<open>Lines 404 to 439: the loop that reads the transactions written after the last
  committed one and puts them in the precommit buffer. \<open>bs\<close> are the bytes the reader
  has not read yet, \<open>readCount\<close> the number of bytes it has read; \<open>cTxLogSize\<close> is
  \<^verbatim>\<open>committedTxLogSize\<close>, and \<open>pTxID\<close>, \<open>pAlh\<close>, \<open>pTxLogSize\<close> and \<open>buf0\<close> are the
  local variables \<^verbatim>\<open>precommittedTxID\<close>, \<^verbatim>\<open>precommittedAlh\<close>,
  \<^verbatim>\<open>precommittedTxLogSize\<close> and \<^verbatim>\<open>cLogBuf\<close> of the source. The loop is left at the first transaction that
  cannot be read or that does not continue the chain; it fails when the precommit
  buffer is full.\<close>

function load_precommitted :: "deps \<Rightarrow> int \<Rightarrow> byte list \<Rightarrow> int \<Rightarrow> u64 \<Rightarrow> digest \<Rightarrow> int
    \<Rightarrow> precommitBuffer \<Rightarrow> error + (u64 \<times> digest \<times> int \<times> precommitBuffer)" where
  "load_precommitted D cTxLogSize bs readCount pTxID pAlh
       pTxLogSize buf0 =
     (case d_txReadFrom D bs of
        Inl e \<Rightarrow> Inr (pTxID, pAlh, pTxLogSize, buf0)
      | Inr (h, n) \<Rightarrow>
          if hID h \<noteq> pTxID + 1 \<or> hPrevAlh h \<noteq> pAlh
          then Inr (pTxID, pAlh, pTxLogSize, buf0)
          else
            (let pTxID' = pTxID + 1;
                 pAlh' = Alh D h;
                 readCount' = readCount + int n;
                 txSize = readCount' - (pTxLogSize - cTxLogSize)
             in case pb_put buf0 pTxID' pAlh' pTxLogSize txSize of
                  Inl e \<Rightarrow> Inl e
                | Inr buf0' \<Rightarrow>
                    load_precommitted D cTxLogSize (drop n bs) readCount'
                      pTxID' pAlh' (pTxLogSize + txSize) buf0'))"
  by pat_completeness auto
termination
proof (relation "measures
    [\<lambda>(D, c, bs, rc, pid, palh, psz, buf). length bs,
     \<lambda>(D, c, bs, rc, pid, palh, psz, buf).
        (case d_txReadFrom D bs of
           Inl e \<Rightarrow> 0
         | Inr (h, n) \<Rightarrow> if hID h \<noteq> pid + 1 \<or> hPrevAlh h \<noteq> palh then 0 else 1)]")
  show "wf (measures
    [\<lambda>(D, c, bs, rc, pid, palh, psz, buf). length bs,
     \<lambda>(D, c, bs, rc, pid, palh, psz, buf).
        (case d_txReadFrom D bs of
           Inl e \<Rightarrow> 0
         | Inr (h, n) \<Rightarrow> if hID h \<noteq> pid + 1 \<or> hPrevAlh h \<noteq> palh then 0 else (1::nat))])"
    by simp
next
  fix D :: deps and cTxLogSize :: int and bs :: "byte list" and readCount :: int
    and pTxID :: u64 and pAlh :: digest and pTxLogSize :: int
    and buf0 :: precommitBuffer and b :: "TxHeader \<times> nat" and h :: TxHeader and n :: nat
    and x :: u64 and xa :: digest and xb xc :: int and x2a :: precommitBuffer
  assume rd: "d_txReadFrom D bs = Inr b" and b: "(h, n) = b"
    and ok: "\<not> (hID h \<noteq> pTxID + 1 \<or> hPrevAlh h \<noteq> pAlh)"
    and x: "x = pTxID + 1"
  have ne: "hID h \<noteq> x + 1" using ok x by simp
  show "((D, cTxLogSize, drop n bs, xb, x, xa, pTxLogSize + xc, x2a),
         (D, cTxLogSize, bs, readCount, pTxID, pAlh,
          pTxLogSize, buf0))
        \<in> measures
    [\<lambda>(D, c, bs, rc, pid, palh, psz, buf). length bs,
     \<lambda>(D, c, bs, rc, pid, palh, psz, buf).
        (case d_txReadFrom D bs of
           Inl e \<Rightarrow> 0
         | Inr (h, n) \<Rightarrow> if hID h \<noteq> pid + 1 \<or> hPrevAlh h \<noteq> palh then 0 else (1::nat))]"
  proof (cases "n = 0 \<or> bs = []")
    case True
    then have "drop n bs = bs" by auto
    with rd b[symmetric] ok ne show ?thesis by simp
  next
    case False
    then have "length (drop n bs) < length bs" by simp
    then show ?thesis by simp
  qed
qed

text \<open>The recovery section as a whole. The accumulative hash of the last committed
  transaction is read from the tx log at the offset found in the commit log; the
  precommit buffer has room for \<open>maxActive\<close> transactions.\<close>

definition OpenWith_recover :: "deps \<Rightarrow> appendable \<Rightarrow> appendable \<Rightarrow> int \<Rightarrow> error option list
    \<Rightarrow> error + Recovered" where
  "OpenWith_recover D txLog0 cLog0 maxActive fs0 =
     (case open_commit_log cLog0 txLog0 fs0 of
        Inl e \<Rightarrow> Inl e
      | Inr r1 \<Rightarrow>
          (case fault_step (rc_faults r1) of
             (Some e, fs1) \<Rightarrow> Inl e
           | (None, fs1) \<Rightarrow>
               (case (if app_Size (rc_cLog r1) > 0
                      then (case d_txReadFrom D (reader_from txLog0 (rc_committedTxOffset r1)) of
                              Inl e \<Rightarrow> Inl e
                            | Inr (h, n) \<Rightarrow> Inr (Alh D h))
                      else Inr (d_sha256 D [])) of
                  Inl e \<Rightarrow> Inl e
                | Inr cAlh \<Rightarrow>
                    (case load_precommitted D (rc_committedTxLogSize r1)
                            (reader_from txLog0 (rc_committedTxLogSize r1)) 0
                            (rc_committedTxID r1) cAlh (rc_committedTxLogSize r1)
                            (newPrecommitBuffer maxActive) of
                       Inl e \<Rightarrow> Inl e
                     | Inr (pid, palh, psz, buf) \<Rightarrow>
                         Inr (r1\<lparr>rc_committedAlh := cAlh,
                                 rc_precommittedTxID := pid,
                                 rc_precommittedAlh := palh,
                                 rc_precommittedTxLogSize := psz,
                                 rc_cLogBuf := buf,
                                 rc_faults := fs1\<rparr>)))))"


section \<open>Example stores\<close>

text \<open>Concrete stores on which the theorems below are exercised. \<open>demo_store\<close> is an open
  store with room for four active transactions in which nothing has been written;
  \<open>demo_precommitted\<close> holds three precommitted transactions, none of them committed.\<close>

definition demo_app :: appendable where
  "demo_app = \<lparr>a_bytes = [], a_flushed = True, a_synced = True\<rparr>"

definition demo_store :: ImmuStore where
  "demo_store =
     \<lparr>vLogs = [demo_app], vLogUnlockedList = [0], vLogCacheOn = False, txPoolFree = 2,
      txLog = demo_app, cLog = demo_app,
      cLogBuf = newPrecommitBuffer 4,
      committedTxID = 0, committedAlh = [0],
      inmemPrecommittedTxID = 0, inmemPrecommittedAlh = [0],
      precommittedTxLogSize = 0, mandatoryMVCCUpToTxID = 0,
      synced = False, maxActiveTransactions = 4,
      maxTxEntries = 2, maxKeyLen = 4, maxValueLen = 4, writeTxHeaderVersion = 1,
      useExternalCommitAllowance = False, commitAllowedUpToTxID = 0,
      aht = [], inmemPrecommitWHub = 0, durablePrecommitWHub = 0, commitWHub = 0,
      closed = False, faults = []\<rparr>"

definition demo_items :: "precommittedEntry list" where
  "demo_items =
     [\<lparr>pe_txID = 1, pe_alh = [1], pe_txOff = 0, pe_txSize = 10\<rparr>,
      \<lparr>pe_txID = 2, pe_alh = [2], pe_txOff = 10, pe_txSize = 10\<rparr>,
      \<lparr>pe_txID = 3, pe_alh = [3], pe_txOff = 20, pe_txSize = 10\<rparr>]"

definition demo_precommitted :: ImmuStore where
  "demo_precommitted =
     demo_store\<lparr>txLog := demo_app\<lparr>a_bytes := replicate 30 0\<rparr>,
                 cLogBuf := \<lparr>pb_size = 4, pb_items = demo_items\<rparr>,
                 inmemPrecommittedTxID := 3, inmemPrecommittedAlh := [3],
                 precommittedTxLogSize := 30,
                 aht := [[1], [2], [3]],
                 inmemPrecommitWHub := 3\<rparr>"

text \<open>Concrete collaborators: a stand-in for the hash, an injective stand-in for the
  base-64 encoding, a header parser that reads the ID from the first eight bytes, and a
  constructor of write-only transactions that keeps the entries as they come.\<close>

definition demo_otx :: "byte list option \<Rightarrow> EntrySpec list \<Rightarrow> OngoingTx" where
  "demo_otx md es =
     \<lparr>o_entries = es, o_preconditions = [], o_metadata = md, o_unsafeMVCC = False,
      o_requireMVCCOnFollowingTxs = False, o_validateAgainst = (\<lambda>h. None),
      o_checkPreconditions = None\<rparr>"

definition demo_deps :: deps where
  "demo_deps =
     \<lparr>d_sha256 = (\<lambda>bs. take 32 (bs @ replicate 32 0)),
      d_b64 = map (\<lambda>b. char_of (unat b)),
      d_buildHashTree = (\<lambda>es. Inr zero_digest),
      d_rootAt = (\<lambda>leaves n. Inr zero_digest),
      d_inclusionProof = (\<lambda>leaves i j. Inr [putUint64 i, putUint64 j]),
      d_consistencyProof = (\<lambda>leaves i j. Inr [putUint64 i, putUint64 j]),
      d_hdrReadFrom = (\<lambda>bs. Inr (new_TxHeader\<lparr>hID := uint64_be bs, hNEntries := 1\<rparr>)),
      d_kvmdReadFrom = (\<lambda>bs. Inr bs),
      d_newTxSpec = (\<lambda>md es. Inr (demo_otx md es)),
      d_txReadFrom = (\<lambda>bs. if length bs < 10 then Inl ErrEOF
                            else Inr (new_TxHeader\<lparr>hID := uint64_be bs,
                                                   hPrevAlh := [bs ! 8]\<rparr>, 10))\<rparr>"

definition demo_entry :: "byte \<Rightarrow> EntrySpec" where
  "demo_entry b =
     \<lparr>Key = Some [b], Metadata = None, Value = [7], isValueTruncated = False,
      hashValue = zero_digest\<rparr>"

text \<open>An exported transaction with ID 2 and one entry of key \<open>[1]\<close> and value \<open>[7]\<close>.\<close>

definition demo_exported :: "byte list" where
  "demo_exported =
     [0, 0, 0, 8] @ [0, 0, 0, 0, 0, 0, 0, 2] @
     [0, 1] @ [1] @ [0, 0] @ [0, 0, 0, 1] @ [7]"


section \<open>Verified properties\<close>

subsection \<open>The commit path\<close>

lemma frame_cLog_refl: "frame_cLog s s"
  by (simp add: frame_cLog_def)

lemma frame_cLog_trans: "frame_cLog s s1 \<Longrightarrow> frame_cLog s1 s2 \<Longrightarrow> frame_cLog s s2"
  by (cases s, cases s1, cases s2) (simp add: frame_cLog_def)

lemma io_step_frame: "io_step s = (r, s1) \<Longrightarrow> frame_cLog s s1"
  by (cases s) (auto simp: io_step_def frame_cLog_def split: list.splits)

lemma frame_cLog_upd: "frame_cLog s s1 \<Longrightarrow> frame_cLog s (s1\<lparr>cLog := c\<rparr>)"
  by (cases s, cases s1) (simp add: frame_cLog_def)

lemma cLog_Append_frame: "cLog_Append s bs = (r, s1) \<Longrightarrow> frame_cLog s s1"
  unfolding cLog_Append_def
  by (cases "io_step s")
     (auto split: option.splits dest!: io_step_frame intro: frame_cLog_upd)

lemma commit_records_frame:
  "commit_records k i acc s = (r, s') \<Longrightarrow> frame_cLog s s'"
proof (induction k arbitrary: i acc s)
  case 0
  then show ?case by (simp add: frame_cLog_refl)
next
  case (Suc k)
  show ?case
  proof (cases "pb_readAhead (cLogBuf s) i")
    case (Inl e)
    with Suc.prems show ?thesis by (simp add: frame_cLog_refl)
  next
    case (Inr pe)
    obtain r1 s1 where a: "cLog_Append s (cLog_record (pe_txOff pe) (pe_txSize pe)) = (r1, s1)"
      by (cases "cLog_Append s (cLog_record (pe_txOff pe) (pe_txSize pe))")
    note f1 = cLog_Append_frame[OF a]
    show ?thesis
    proof (cases r1)
      case (Some e)
      with Suc.prems Inr a f1 show ?thesis by auto
    next
      case None
      with Suc.prems Inr a have "commit_records k (i + 1) (pe_txID pe, pe_alh pe) s1 = (r, s')" by simp
      from Suc.IH[OF this] f1 show ?thesis by (rule frame_cLog_trans[rotated])
    qed
  qed
qed

lemma frame_cLog_fields:
  assumes "frame_cLog s s'"
  shows "committedTxID s' = committedTxID s" "committedAlh s' = committedAlh s"
    "cLogBuf s' = cLogBuf s" "commitAllowedUpToTxID s' = commitAllowedUpToTxID s"
    "inmemPrecommittedTxID s' = inmemPrecommittedTxID s"
    "inmemPrecommittedAlh s' = inmemPrecommittedAlh s"
    "useExternalCommitAllowance s' = useExternalCommitAllowance s"
    "synced s' = synced s" "closed s' = closed s" "aht s' = aht s" "txLog s' = txLog s"
    "commitWHub s' = commitWHub s"
  using assms by (cases s, cases s', simp add: frame_cLog_def)+

lemma cLog_Append_ok:
  "cLog_Append s bs = (None, s1) \<Longrightarrow> a_bytes (cLog s1) = a_bytes (cLog s) @ bs \<and> cLogBuf s1 = cLogBuf s"
  unfolding cLog_Append_def
  by (cases s) (auto simp: io_step_def app_Append_def split: list.splits option.splits)

lemma commit_records_ok:
  "commit_records k i acc s = (Inr acc', s') \<Longrightarrow> 0 \<le> i \<Longrightarrow>
     (0 < k \<longrightarrow> nat i + k \<le> length (pb_items (cLogBuf s))) \<and>
     a_bytes (cLog s') = a_bytes (cLog s) @ cLog_records (take k (drop (nat i) (pb_items (cLogBuf s)))) \<and>
     (k = 0 \<longrightarrow> acc' = acc) \<and>
     (0 < k \<longrightarrow> acc' = (pe_txID (pb_items (cLogBuf s) ! (nat i + k - 1)),
                         pe_alh (pb_items (cLogBuf s) ! (nat i + k - 1))))"
proof (induction k arbitrary: i acc s)
  case 0
  then show ?case by (simp add: cLog_records_def)
next
  case (Suc k)
  let ?items = "pb_items (cLogBuf s)"
  from Suc.prems obtain pe where ra: "pb_readAhead (cLogBuf s) i = Inr pe"
    by (cases "pb_readAhead (cLogBuf s) i") auto
  then have len: "nat i < length ?items" and pe: "pe = ?items ! nat i"
    using Suc.prems(2) by (auto simp: pb_readAhead_def split: if_splits)
  obtain r1 s1 where a: "cLog_Append s (cLog_record (pe_txOff pe) (pe_txSize pe)) = (r1, s1)"
    by (cases "cLog_Append s (cLog_record (pe_txOff pe) (pe_txSize pe))")
  with Suc.prems ra have r1: "r1 = None" by (cases r1) auto
  with Suc.prems ra a have rec: "commit_records k (i + 1) (pe_txID pe, pe_alh pe) s1 = (Inr acc', s')"
    by simp
  from cLog_Append_ok[OF a[unfolded r1]]
  have b1: "a_bytes (cLog s1) = a_bytes (cLog s) @ cLog_record (pe_txOff pe) (pe_txSize pe)"
    and buf: "cLogBuf s1 = cLogBuf s" by auto
  from Suc.prems(2) have i1: "0 \<le> i + 1" and ni: "nat (i + 1) = Suc (nat i)" by auto
  note IH = Suc.IH[OF rec i1, unfolded buf ni]
  have dr: "take (Suc k) (drop (nat i) ?items) = pe # take k (drop (Suc (nat i)) ?items)"
    using len pe by (simp add: Cons_nth_drop_Suc[symmetric])
  show ?case
  proof (intro conjI impI)
    show "nat i + Suc k \<le> length ?items" using IH len by (cases k) auto
    show "a_bytes (cLog s') = a_bytes (cLog s) @ cLog_records (take (Suc k) (drop (nat i) ?items))"
      using IH b1 by (simp add: dr cLog_records_def)
    show "acc' = acc" if "Suc k = 0" using that by simp
    show "acc' = (pe_txID (?items ! (nat i + Suc k - 1)), pe_alh (?items ! (nat i + Suc k - 1)))"
      using IH pe by (cases k) auto
  qed
qed

lemma cLog_SetOffset_ok:
  "cLog_SetOffset s off = (None, s1) \<Longrightarrow>
     a_bytes (cLog s1) = take (nat off) (a_bytes (cLog s)) \<and> frame_cLog s s1"
  unfolding cLog_SetOffset_def
  by (cases s) (auto simp: io_step_def app_SetOffset_def frame_cLog_def split: list.splits option.splits sum.splits if_splits)

lemma cLog_SetOffset_frame: "cLog_SetOffset s off = (r, s1) \<Longrightarrow> frame_cLog s s1"
  unfolding cLog_SetOffset_def
  by (cases s) (auto simp: io_step_def app_SetOffset_def frame_cLog_def split: list.splits option.splits sum.splits if_splits)

lemma cLog_Flush_frame: "cLog_Flush s = (r, s1) \<Longrightarrow> frame_cLog s s1"
  unfolding cLog_Flush_def
  by (cases s) (auto simp: io_step_def frame_cLog_def split: list.splits option.splits)

lemma cLog_Flush_ok:
  "cLog_Flush s = (None, s1) \<Longrightarrow> a_bytes (cLog s1) = a_bytes (cLog s) \<and> a_flushed (cLog s1)"
  unfolding cLog_Flush_def
  by (cases s) (auto simp: io_step_def app_Flush_def split: list.splits option.splits)

lemma cLog_Sync_frame: "cLog_Sync s = (r, s1) \<Longrightarrow> frame_cLog s s1"
  unfolding cLog_Sync_def
  by (cases s) (auto simp: io_step_def frame_cLog_def split: list.splits option.splits)

lemma cLog_Sync_ok:
  "cLog_Sync s = (None, s1) \<Longrightarrow>
     a_bytes (cLog s1) = a_bytes (cLog s) \<and> a_flushed (cLog s1) = a_flushed (cLog s) \<and> a_synced (cLog s1)"
  unfolding cLog_Sync_def
  by (cases s) (auto simp: io_step_def app_Sync_def split: list.splits option.splits)

lemma mayCommit_cases:
  assumes "mayCommit s = (r, s')"
  shows "(committedTxID s' = committedTxID s \<and> committedAlh s' = committedAlh s) \<or>
         (r = None \<and> records_committed s s' \<and> a_flushed (cLog s'))"
proof -
  let ?n = "int_of_u64 (commitAllowedUpTo s - committedTxID s)"
  show ?thesis
  proof (cases "?n = 0")
    case True
    with assms show ?thesis by (simp add: mayCommit_def Let_def)
  next
    case n0: False
    obtain r1 s1 where so: "cLog_SetOffset s (int_of_u64 (committedTxID s * 12)) = (r1, s1)"
      by (cases "cLog_SetOffset s (int_of_u64 (committedTxID s * 12))")
    note f1 = cLog_SetOffset_frame[OF so]
    show ?thesis
    proof (cases r1)
      case (Some e)
      with assms n0 so have "s' = s1" by (simp add: mayCommit_def Let_def)
      with f1 show ?thesis by (simp add: frame_cLog_fields)
    next
      case None
      obtain r2 s2 where cr: "commit_records (nat ?n) 0 (0, replicate 32 0) s1 = (r2, s2)"
        by (cases "commit_records (nat ?n) 0 (0, replicate 32 0) s1")
      note f2 = frame_cLog_trans[OF f1 commit_records_frame[OF cr]]
      show ?thesis
      proof (cases r2)
        case (Inl e)
        with assms n0 so None cr have "s' = s2" by (simp add: mayCommit_def Let_def)
        with f2 show ?thesis by (simp add: frame_cLog_fields)
      next
        case (Inr acc)
        obtain cid calh where acc: "acc = (cid, calh)" by (cases acc)
        show ?thesis
        proof (cases "cid \<noteq> commitAllowedUpTo s")
          case True
          with assms n0 so None cr Inr acc have "s' = s2" by (simp add: mayCommit_def Let_def)
          with f2 show ?thesis by (simp add: frame_cLog_fields)
        next
          case cideq: False
          obtain r3 s3 where fl: "cLog_Flush s2 = (r3, s3)" by (cases "cLog_Flush s2")
          note f3 = frame_cLog_trans[OF f2 cLog_Flush_frame[OF fl]]
          show ?thesis
          proof (cases r3)
            case (Some e)
            with assms n0 so None cr Inr acc cideq fl have "s' = s3"
              by (simp add: mayCommit_def Let_def)
            with f3 show ?thesis by (simp add: frame_cLog_fields)
          next
            case r3: None
            show ?thesis
            proof (cases "pb_advanceReader (cLogBuf s3) ?n")
              case (Inl e)
              with assms n0 so None cr Inr acc cideq fl r3 have "s' = s3"
                by (simp add: mayCommit_def Let_def)
              with f3 show ?thesis by (simp add: frame_cLog_fields)
            next
              case (Inr b)
              with assms n0 so None cr \<open>r2 = Inr acc\<close> acc cideq fl r3
              have s': "s' = s3\<lparr>cLogBuf := b, committedTxID := cid, committedAlh := calh,
                                 commitWHub := doneUpto (commitWHub s3) cid\<rparr>"
                and r: "r = None"
                by (simp_all add: mayCommit_def Let_def)
              from commit_records_ok[OF cr[unfolded \<open>r2 = Inr acc\<close>]]
              have k1: "nat ?n \<le> length (pb_items (cLogBuf s1))"
                by (cases "nat ?n") auto
              from commit_records_ok[OF cr[unfolded \<open>r2 = Inr acc\<close>]]
              have k2: "a_bytes (cLog s2) = a_bytes (cLog s1) @ cLog_records (take (nat ?n) (pb_items (cLogBuf s1)))"
                by auto
              from cLog_SetOffset_ok[OF so[unfolded None]]
              have k3: "a_bytes (cLog s1) = take (nat (int_of_u64 (committedTxID s * 12))) (a_bytes (cLog s))"
                by simp
              from cLog_Flush_ok[OF fl[unfolded r3]]
              have k4: "a_bytes (cLog s3) = a_bytes (cLog s2)" "a_flushed (cLog s3)" by auto
              have "records_committed s s'"
                using k1 k2 k3 k4 cideq s' by (simp add: records_committed_def Let_def frame_cLog_fields[OF f1])
              with r k4 s' show ?thesis by simp
            qed
          qed
        qed
      qed
    qed
  qed
qed

lemma frame_sync_refl: "frame_sync s s"
  by (simp add: frame_sync_def)

lemma frame_sync_trans: "frame_sync s s1 \<Longrightarrow> frame_sync s1 s2 \<Longrightarrow> frame_sync s s2"
  by (cases s, cases s1, cases s2) (simp add: frame_sync_def)

lemma io_step_frame_sync: "io_step s = (r, s1) \<Longrightarrow> frame_sync s s1"
  by (cases s) (auto simp: io_step_def frame_sync_def split: list.splits)

lemma frame_sync_upd:
  "frame_sync s s1 \<Longrightarrow> frame_sync s (s1\<lparr>vLogs := v\<rparr>)"
  "frame_sync s s1 \<Longrightarrow> frame_sync s (s1\<lparr>txLog := t\<rparr>)"
  "frame_sync s s1 \<Longrightarrow> frame_sync s (s1\<lparr>durablePrecommitWHub := d\<rparr>)"
  by (cases s, cases s1, simp add: frame_sync_def)+

lemma frame_sync_fields:
  assumes "frame_sync s s'"
  shows "committedTxID s' = committedTxID s" "committedAlh s' = committedAlh s"
    "cLogBuf s' = cLogBuf s" "commitAllowedUpToTxID s' = commitAllowedUpToTxID s"
    "inmemPrecommittedTxID s' = inmemPrecommittedTxID s"
    "useExternalCommitAllowance s' = useExternalCommitAllowance s"
    "cLog s' = cLog s"
  using assms by (cases s, cases s', simp add: frame_sync_def)+

lemma sync_vLogs_frame: "sync_vLogs done vs s = (r, s') \<Longrightarrow> frame_sync s s'"
proof (induction vs arbitrary: "done" s)
  case Nil
  then show ?case by (auto intro: frame_sync_upd frame_sync_refl)
next
  case (Cons v vs)
  obtain r1 s1 where a: "io_step s = (r1, s1)" by (cases "io_step s")
  note f1 = io_step_frame_sync[OF a]
  show ?case
  proof (cases r1)
    case (Some e)
    with Cons.prems a f1 show ?thesis by (auto intro: frame_sync_upd)
  next
    case None
    obtain r2 s2 where b: "io_step s1 = (r2, s2)" by (cases "io_step s1")
    note f2 = frame_sync_trans[OF f1 io_step_frame_sync[OF b]]
    show ?thesis
    proof (cases r2)
      case (Some e)
      with Cons.prems a None b f2 show ?thesis by (auto intro: frame_sync_upd)
    next
      case r2: None
      with Cons.prems a None b
      have "sync_vLogs (done @ [app_Sync (app_Flush v)]) vs s2 = (r, s')" by simp
      from f2 Cons.IH[OF this] show ?thesis by (rule frame_sync_trans)
    qed
  qed
qed

lemma txLog_FlushSync_frame: "txLog_FlushSync s = (r, s') \<Longrightarrow> frame_sync s s'"
  unfolding txLog_FlushSync_def
  by (cases s) (auto simp: io_step_def frame_sync_def split: list.splits option.splits)

lemma durable_DoneUpto_frame: "durable_DoneUpto s = (r, s') \<Longrightarrow> frame_sync s s'"
  unfolding durable_DoneUpto_def
  by (cases s) (auto simp: io_step_def frame_sync_def split: list.splits option.splits)

lemma records_committed_cong:
  "cLog s1 = cLog s \<Longrightarrow> cLogBuf s1 = cLogBuf s \<Longrightarrow> committedTxID s1 = committedTxID s \<Longrightarrow>
   commitAllowedUpTo s1 = commitAllowedUpTo s \<Longrightarrow>
   records_committed s1 s' = records_committed s s'"
  by (simp add: records_committed_def)

lemma sync_commit_cases:
  assumes "sync_commit s = (r, s')"
  shows "(committedTxID s' = committedTxID s \<and> committedAlh s' = committedAlh s) \<or>
         (r = None \<and> records_committed s s' \<and> a_flushed (cLog s') \<and> a_synced (cLog s'))"
proof -
  let ?n = "int_of_u64 (commitAllowedUpTo s - committedTxID s)"
  show ?thesis
  proof (cases "?n = 0")
    case True
    with assms show ?thesis by (simp add: sync_commit_def Let_def)
  next
    case n0: False
    obtain r1 s1 where so: "cLog_SetOffset s (int_of_u64 (committedTxID s * 12)) = (r1, s1)"
      by (cases "cLog_SetOffset s (int_of_u64 (committedTxID s * 12))")
    note f1 = cLog_SetOffset_frame[OF so]
    show ?thesis
    proof (cases r1)
      case (Some e)
      with assms n0 so have "s' = s1" by (simp add: sync_commit_def Let_def)
      with f1 show ?thesis by (simp add: frame_cLog_fields)
    next
      case None
      obtain r2 s2 where cr: "commit_records (nat ?n) 0 (0, replicate 32 0) s1 = (r2, s2)"
        by (cases "commit_records (nat ?n) 0 (0, replicate 32 0) s1")
      note f2 = frame_cLog_trans[OF f1 commit_records_frame[OF cr]]
      show ?thesis
      proof (cases r2)
        case (Inl e)
        with assms n0 so None cr have "s' = s2" by (simp add: sync_commit_def Let_def)
        with f2 show ?thesis by (simp add: frame_cLog_fields)
      next
        case (Inr acc)
        obtain cid calh where acc: "acc = (cid, calh)" by (cases acc)
        show ?thesis
        proof (cases "cid \<noteq> commitAllowedUpTo s")
          case True
          with assms n0 so None cr Inr acc have "s' = s2" by (simp add: sync_commit_def Let_def)
          with f2 show ?thesis by (simp add: frame_cLog_fields)
        next
          case cideq: False
          obtain r3 s3 where fl: "cLog_Flush s2 = (r3, s3)" by (cases "cLog_Flush s2")
          note f3 = frame_cLog_trans[OF f2 cLog_Flush_frame[OF fl]]
          show ?thesis
          proof (cases r3)
            case (Some e)
            with assms n0 so None cr Inr acc cideq fl have "s' = s3"
              by (simp add: sync_commit_def Let_def)
            with f3 show ?thesis by (simp add: frame_cLog_fields)
          next
            case r3: None
            obtain r4 s4 where sy: "cLog_Sync s3 = (r4, s4)" by (cases "cLog_Sync s3")
            note f4 = frame_cLog_trans[OF f3 cLog_Sync_frame[OF sy]]
            show ?thesis
            proof (cases r4)
              case (Some e)
              with assms n0 so None cr Inr acc cideq fl r3 sy have "s' = s4"
                by (simp add: sync_commit_def Let_def)
              with f4 show ?thesis by (simp add: frame_cLog_fields)
            next
              case r4: None
              show ?thesis
              proof (cases "pb_advanceReader (cLogBuf s4) ?n")
                case (Inl e)
                with assms n0 so None cr Inr acc cideq fl r3 sy r4 have "s' = s4"
                  by (simp add: sync_commit_def Let_def)
                with f4 show ?thesis by (simp add: frame_cLog_fields)
              next
                case (Inr b)
                with assms n0 so None cr \<open>r2 = Inr acc\<close> acc cideq fl r3 sy r4
                have s': "s' = s4\<lparr>cLogBuf := b, committedTxID := cid, committedAlh := calh,
                                   commitWHub := doneUpto (commitWHub s4) cid\<rparr>"
                  and r: "r = None"
                  by (simp_all add: sync_commit_def Let_def)
                from commit_records_ok[OF cr[unfolded \<open>r2 = Inr acc\<close>]]
                have k1: "nat ?n \<le> length (pb_items (cLogBuf s1))"
                  by (cases "nat ?n") auto
                from commit_records_ok[OF cr[unfolded \<open>r2 = Inr acc\<close>]]
                have k2: "a_bytes (cLog s2) = a_bytes (cLog s1) @ cLog_records (take (nat ?n) (pb_items (cLogBuf s1)))"
                  by auto
                from cLog_SetOffset_ok[OF so[unfolded None]]
                have k3: "a_bytes (cLog s1) = take (nat (int_of_u64 (committedTxID s * 12))) (a_bytes (cLog s))"
                  by simp
                from cLog_Flush_ok[OF fl[unfolded r3]]
                have k4: "a_bytes (cLog s3) = a_bytes (cLog s2)" "a_flushed (cLog s3)" by auto
                from cLog_Sync_ok[OF sy[unfolded r4]]
                have k5: "a_bytes (cLog s4) = a_bytes (cLog s3)" "a_flushed (cLog s4) = a_flushed (cLog s3)"
                  "a_synced (cLog s4)" by auto
                have "records_committed s s'"
                  using k1 k2 k3 k4 k5 cideq s'
                  by (simp add: records_committed_def Let_def frame_cLog_fields[OF f1])
                with r k4 k5 s' show ?thesis by simp
              qed
            qed
          qed
        qed
      qed
    qed
  qed
qed

lemma sync_cases:
  assumes "sync s = (r, s')"
  shows "(committedTxID s' = committedTxID s \<and> committedAlh s' = committedAlh s) \<or>
         (r = None \<and> records_committed s s' \<and> a_flushed (cLog s') \<and> a_synced (cLog s'))"
proof (cases "inmemPrecommittedTxID s = committedTxID s")
  case True
  with assms show ?thesis by (simp add: sync_def)
next
  case ne: False
  obtain r1 s1 where a: "sync_vLogs [] (vLogs s) s = (r1, s1)" by (cases "sync_vLogs [] (vLogs s) s")
  note f1 = sync_vLogs_frame[OF a]
  show ?thesis
  proof (cases r1)
    case (Some e)
    with assms ne a have "s' = s1" by (simp add: sync_def)
    with f1 show ?thesis by (simp add: frame_sync_fields)
  next
    case r1: None
    obtain r2 s2 where b: "txLog_FlushSync s1 = (r2, s2)" by (cases "txLog_FlushSync s1")
    note f2 = frame_sync_trans[OF f1 txLog_FlushSync_frame[OF b]]
    show ?thesis
    proof (cases r2)
      case (Some e)
      with assms ne a r1 b have "s' = s2" by (simp add: sync_def)
      with f2 show ?thesis by (simp add: frame_sync_fields)
    next
      case r2: None
      obtain r3 s3 where c: "durable_DoneUpto s2 = (r3, s3)" by (cases "durable_DoneUpto s2")
      note f3 = frame_sync_trans[OF f2 durable_DoneUpto_frame[OF c]]
      show ?thesis
      proof (cases r3)
        case (Some e)
        with assms ne a r1 b r2 c have "s' = s3" by (simp add: sync_def)
        with f3 show ?thesis by (simp add: frame_sync_fields)
      next
        case r3: None
        with assms ne a r1 b r2 c have "sync_commit s3 = (r, s')" by (simp add: sync_def)
        from sync_commit_cases[OF this]
        show ?thesis
          using records_committed_cong[of s3 s s']
          by (simp add: frame_sync_fields[OF f3] commitAllowedUpTo_def)
      qed
    qed
  qed
qed

text \<open>Claim C8. Commit is atomic with respect to failure. Whenever \<^verbatim>\<open>mayCommit\<close>, or
  \<^verbatim>\<open>sync\<close> with its commit phase, returns an error (a failed read of the precommit
  buffer, a failed append of a commit-log record, a failed flush or fsync, or any other
  failing step), \<open>committedTxID\<close> and \<open>committedAlh\<close> are what they were before the
  call. Conversely, if a call changes either of them, then it has returned no error, the
  commit log holds the records below \<open>committedTxID * 12\<close> followed by exactly one record
  for each of the \<open>commitAllowedUpTo - committedTxID\<close> oldest entries of the precommit
  buffer, the new \<open>committedTxID\<close> is the allowed ceiling, and the commit log has been
  flushed (and fsynced, in \<^verbatim>\<open>sync\<close>). The store \<open>s\<close> carries an arbitrary schedule of
  failures, so the statement covers every point at which a collaborator can fail.\<close>

theorem commit_atomic_on_failure:
  "(mayCommit s = (Some e, s') \<longrightarrow>
      committedTxID s' = committedTxID s \<and> committedAlh s' = committedAlh s) \<and>
   (sync s = (Some e, s') \<longrightarrow>
      committedTxID s' = committedTxID s \<and> committedAlh s' = committedAlh s) \<and>
   (mayCommit s = (r, s') \<and>
      (committedTxID s' \<noteq> committedTxID s \<or> committedAlh s' \<noteq> committedAlh s) \<longrightarrow>
      r = None \<and> records_committed s s' \<and> a_flushed (cLog s')) \<and>
   (sync s = (r, s') \<and>
      (committedTxID s' \<noteq> committedTxID s \<or> committedAlh s' \<noteq> committedAlh s) \<longrightarrow>
      r = None \<and> records_committed s s' \<and> a_flushed (cLog s') \<and> a_synced (cLog s'))"
  using mayCommit_cases[of s "Some e" s'] sync_cases[of s "Some e" s']
    mayCommit_cases[of s r s'] sync_cases[of s r s']
  by auto

theorem commit_atomic_on_failure_witness:
  "fst (mayCommit (demo_precommitted\<lparr>faults := [None, None, Some (ErrOther 1)]\<rparr>)) = Some (ErrOther 1) \<and>
   committedTxID (snd (mayCommit (demo_precommitted\<lparr>faults := [None, None, Some (ErrOther 1)]\<rparr>))) = 0 \<and>
   fst (sync (demo_precommitted\<lparr>faults := [None, None, None, None, None, None, None, None, None, Some (ErrOther 2)]\<rparr>))
     = Some (ErrOther 2) \<and>
   committedTxID (snd (sync (demo_precommitted\<lparr>faults := [None, None, None, None, None, None, None, None, None, Some (ErrOther 2)]\<rparr>))) = 0 \<and>
   committedTxID (snd (mayCommit demo_precommitted)) = 3 \<and>
   a_flushed (cLog (snd (mayCommit demo_precommitted))) \<and>
   records_committed demo_precommitted (snd (mayCommit demo_precommitted)) \<and>
   committedTxID (snd (sync demo_precommitted)) = 3 \<and>
   a_synced (cLog (snd (sync demo_precommitted)))"
proof -
  let ?F = "demo_precommitted\<lparr>faults := [None, None, Some (ErrOther 1)]\<rparr>"
  let ?G = "demo_precommitted\<lparr>faults := [None, None, None, None, None, None, None, None, None, Some (ErrOther 2)]\<rparr>"
  have f: "fst (mayCommit ?F) = Some (ErrOther 1)" by code_simp
  have g: "fst (sync ?G) = Some (ErrOther 2)" by code_simp
  have c0: "committedTxID demo_precommitted = 0" by code_simp
  have m: "committedTxID (snd (mayCommit demo_precommitted)) = 3" by code_simp
  have y: "committedTxID (snd (sync demo_precommitted)) = 3" by code_simp
  have F: "mayCommit ?F = (Some (ErrOther 1), snd (mayCommit ?F))"
    using f by (simp add: prod_eq_iff)
  have G: "sync ?G = (Some (ErrOther 2), snd (sync ?G))"
    using g by (simp add: prod_eq_iff)
  have M: "mayCommit demo_precommitted = (fst (mayCommit demo_precommitted), snd (mayCommit demo_precommitted))"
    by simp
  have Y: "sync demo_precommitted = (fst (sync demo_precommitted), snd (sync demo_precommitted))"
    by simp
  from commit_atomic_on_failure[of ?F "ErrOther 1" "snd (mayCommit ?F)"] F
  have 1: "committedTxID (snd (mayCommit ?F)) = 0" by (simp add: c0)
  from commit_atomic_on_failure[of ?G "ErrOther 2" "snd (sync ?G)"] G
  have 2: "committedTxID (snd (sync ?G)) = 0" by (simp add: c0)
  from commit_atomic_on_failure[of demo_precommitted _ "snd (mayCommit demo_precommitted)" "fst (mayCommit demo_precommitted)"] M m c0
  have 3: "records_committed demo_precommitted (snd (mayCommit demo_precommitted))"
    "a_flushed (cLog (snd (mayCommit demo_precommitted)))" by auto
  from commit_atomic_on_failure[of demo_precommitted _ "snd (sync demo_precommitted)" "fst (sync demo_precommitted)"] Y y c0
  have 4: "a_synced (cLog (snd (sync demo_precommitted)))" by auto
  from f g 1 2 3 4 m y show ?thesis by simp
qed

subsection \<open>Discarding the uncommitted tail\<close>

text \<open>Claim C10. On an open store \<^verbatim>\<open>DiscardPrecommittedTxsSince(txID)\<close> is guarded at
  its boundaries. For \<open>txID = 0\<close> or \<open>txID \<le> committedTxID\<close> it fails with an
  illegal-argument error and the store is unchanged. For every \<open>txID\<close> strictly greater
  than \<open>inmemPrecommittedTxID\<close> it returns the count 0 with no error and the store is
  unchanged: neither the hash tree nor \<open>inmemPrecommittedTxID\<close> and
  \<open>inmemPrecommittedAlh\<close> move. The second part is stated for stores in which
  \<open>committedTxID \<le> inmemPrecommittedTxID\<close>, the ordering of the commit state that the
  two parts of the claim presuppose.\<close>

theorem DiscardPrecommittedTxsSince_guards:
  assumes "\<not> closed s"
  shows "(txID = 0 \<or> txID \<le> committedTxID s \<longrightarrow>
            DiscardPrecommittedTxsSince s txID = (Inl ErrIllegalArguments, s)) \<and>
         (committedTxID s \<le> inmemPrecommittedTxID s \<and> inmemPrecommittedTxID s < txID \<longrightarrow>
            DiscardPrecommittedTxsSince s txID = (Inr 0, s))"
proof (intro conjI impI)
  assume "txID = 0 \<or> txID \<le> committedTxID s"
  then show "DiscardPrecommittedTxsSince s txID = (Inl ErrIllegalArguments, s)"
  proof
    assume "txID = 0"
    with assms show ?thesis by (simp add: DiscardPrecommittedTxsSince_def)
  next
    assume "txID \<le> committedTxID s"
    with assms show ?thesis by (simp add: DiscardPrecommittedTxsSince_def)
  qed
next
  assume a: "committedTxID s \<le> inmemPrecommittedTxID s \<and> inmemPrecommittedTxID s < txID"
  then have 3: "inmemPrecommittedTxID s < txID" by simp
  from a have 2: "\<not> txID \<le> committedTxID s"
    by (meson leD le_less_trans)
  have 1: "txID \<noteq> 0"
  proof
    assume "txID = 0"
    with 3 show False by simp
  qed
  from assms 1 2 3 show "DiscardPrecommittedTxsSince s txID = (Inr 0, s)"
    by (simp add: DiscardPrecommittedTxsSince_def)
qed

theorem DiscardPrecommittedTxsSince_guards_witness:
  "\<not> closed demo_precommitted \<and>
   DiscardPrecommittedTxsSince demo_precommitted 0 = (Inl ErrIllegalArguments, demo_precommitted) \<and>
   committedTxID demo_precommitted \<le> inmemPrecommittedTxID demo_precommitted \<and>
   inmemPrecommittedTxID demo_precommitted < 5 \<and>
   DiscardPrecommittedTxsSince demo_precommitted 5 = (Inr 0, demo_precommitted)"
proof -
  have c: "\<not> closed demo_precommitted"
    by (simp add: demo_precommitted_def demo_store_def)
  have o: "committedTxID demo_precommitted \<le> inmemPrecommittedTxID demo_precommitted"
    "inmemPrecommittedTxID demo_precommitted < 5"
    by (simp_all add: demo_precommitted_def demo_store_def)
  from DiscardPrecommittedTxsSince_guards[OF c, of 0]
    DiscardPrecommittedTxsSince_guards[OF c, of 5] c o
  show ?thesis by simp
qed

subsection \<open>The precommit path\<close>

lemma frame_prepare_refl: "frame_prepare s s"
  by (simp add: frame_prepare_def)

lemma frame_prepare_trans: "frame_prepare s s1 \<Longrightarrow> frame_prepare s1 s2 \<Longrightarrow> frame_prepare s s2"
  by (cases s, cases s1, cases s2) (simp add: frame_prepare_def)

lemma io_step_frame_prepare: "io_step s = (r, s1) \<Longrightarrow> frame_prepare s s1"
  by (cases s) (auto simp: io_step_def frame_prepare_def split: list.splits)

lemma frame_prepare_upd:
  "frame_prepare s s1 \<Longrightarrow> frame_prepare s (s1\<lparr>vLogs := v, vLogUnlockedList := u\<rparr>)"
  by (cases s, cases s1, simp add: frame_prepare_def)

lemma frame_prepare_fields:
  assumes "frame_prepare s s'"
  shows "committedTxID s' = committedTxID s" "committedAlh s' = committedAlh s"
    "cLogBuf s' = cLogBuf s" "commitAllowedUpToTxID s' = commitAllowedUpToTxID s"
    "inmemPrecommittedTxID s' = inmemPrecommittedTxID s"
    "inmemPrecommittedAlh s' = inmemPrecommittedAlh s"
    "precommittedTxLogSize s' = precommittedTxLogSize s"
    "useExternalCommitAllowance s' = useExternalCommitAllowance s"
    "synced s' = synced s" "closed s' = closed s" "aht s' = aht s" "txLog s' = txLog s"
    "cLog s' = cLog s" "maxActiveTransactions s' = maxActiveTransactions s"
  using assms by (cases s, cases s', simp add: frame_prepare_def)+

lemma appendData_loop_frame:
  "appendData_loop i es offs v s = (r, v', s') \<Longrightarrow> frame_prepare s s'"
proof (induction es arbitrary: offs v s)
  case Nil
  then show ?case by (simp add: frame_prepare_refl)
next
  case (Cons e es)
  show ?case
  proof (cases "length (Value e) = 0")
    case True
    with Cons.prems have "appendData_loop i es (offs @ [0]) v s = (r, v', s')" by simp
    then show ?thesis by (rule Cons.IH)
  next
    case ne: False
    obtain r1 s1 where a: "io_step s = (r1, s1)" by (cases "io_step s")
    note f1 = io_step_frame_prepare[OF a]
    show ?thesis
    proof (cases r1)
      case (Some err)
      with Cons.prems ne a have "s' = s1" by simp
      with f1 show ?thesis by simp
    next
      case r1: None
      obtain voff v1 where ap: "app_Append v (Value e) = (voff, v1)" by (cases "app_Append v (Value e)")
      show ?thesis
      proof (cases "vLogCacheOn s1")
        case False
        with Cons.prems ne a r1 ap
        have "appendData_loop i es (offs @ [encodeOffset voff i]) v1 s1 = (r, v', s')" by simp
        from f1 Cons.IH[OF this] show ?thesis by (rule frame_prepare_trans)
      next
        case on: True
        obtain r2 s2 where b: "io_step s1 = (r2, s2)" by (cases "io_step s1")
        note f2 = frame_prepare_trans[OF f1 io_step_frame_prepare[OF b]]
        show ?thesis
        proof (cases r2)
          case (Some err)
          with Cons.prems ne a r1 ap on b have "s' = s2" by simp
          with f2 show ?thesis by simp
        next
          case None
          with Cons.prems ne a r1 ap on b
          have "appendData_loop i es (offs @ [encodeOffset voff i]) v1 s2 = (r, v', s')" by simp
          from f2 Cons.IH[OF this] show ?thesis by (rule frame_prepare_trans)
        qed
      qed
    qed
  qed
qed

lemma appendData_frame: "appendData s es = (r, s') \<Longrightarrow> frame_prepare s s'"
  unfolding appendData_def
  by (auto split: list.splits if_splits prod.splits
           dest!: appendData_loop_frame intro: frame_prepare_refl frame_prepare_upd)

lemma waitFor_frame: "waitFor s m t = (r, s') \<Longrightarrow> frame_prepare s s'"
  unfolding waitFor_def
  by (auto split: prod.splits option.splits if_splits dest!: io_step_frame_prepare)

lemma aht_RootAt_frame: "aht_RootAt D s n = (r, s') \<Longrightarrow> frame_prepare s s'"
  unfolding aht_RootAt_def
  by (auto split: prod.splits option.splits if_splits dest!: io_step_frame_prepare)

lemma check_expected_header_frame:
  "check_expected_header D s tx hdr skip = (r, s') \<Longrightarrow> frame_prepare s s'"
  unfolding check_expected_header_def Let_def
  by (auto split: prod.splits option.splits if_splits sum.splits
           dest!: waitFor_frame aht_RootAt_frame
           intro: frame_prepare_refl frame_prepare_trans)

lemma precommit_locked_checks_frame:
  "precommit_locked_checks s otx hdr now = (r, s') \<Longrightarrow> frame_prepare s s'"
  unfolding precommit_locked_checks_def Let_def
  by (auto split: prod.splits option.splits if_splits sum.splits
           dest!: io_step_frame_prepare intro: frame_prepare_refl)

lemma precommit_prepare_frame:
  "precommit_prepare D s otx0 hdr skip now = (r, s') \<Longrightarrow> frame_prepare s s'"
  unfolding precommit_prepare_def Let_def
  by (auto split: prod.splits option.splits if_splits sum.splits
           dest!: appendData_frame check_expected_header_frame precommit_locked_checks_frame
           intro: frame_prepare_refl frame_prepare_trans)

lemma backpressure_cond:
  assumes "uint (inmemPrecommittedTxID s) - uint (committedTxID s) = maxActiveTransactions s"
  shows "committedTxID s + u64_of_int (maxActiveTransactions s) \<le> inmemPrecommittedTxID s"
proof -
  have "inmemPrecommittedTxID s - committedTxID s = word_of_int (uint (inmemPrecommittedTxID s) - uint (committedTxID s))"
    by (rule word_sub_wi)
  then have "u64_of_int (maxActiveTransactions s) = inmemPrecommittedTxID s - committedTxID s"
    unfolding u64_of_int_def assms[symmetric] by (rule sym)
  then show ?thesis by simp
qed

lemma performPrecommit_early:
  assumes "synced s" "uint (inmemPrecommittedTxID s) - uint (committedTxID s) = maxActiveTransactions s"
  shows "performPrecommit D s tx ts blTxID = (Some ErrMaxActiveTransactionsLimitExceeded, tx, s)"
  using assms(1) backpressure_cond[OF assms(2)] by (simp add: performPrecommit_def)

lemma precommit_backpressure_prepared:
  assumes "synced s" "uint (inmemPrecommittedTxID s) - uint (committedTxID s) = maxActiveTransactions s"
    and p: "precommit_prepare D s otx hdr skip now = (Inr p, s1)"
  shows "precommit D s otx hdr skip now = (Inl ErrMaxActiveTransactionsLimitExceeded, s1)"
proof -
  note f = precommit_prepare_frame[OF p]
  obtain tx ts bl where pp: "p = (tx, ts, bl)" by (cases p)
  have "performPrecommit D s1 tx ts bl = (Some ErrMaxActiveTransactionsLimitExceeded, tx, s1)"
    using assms(1,2) by (intro performPrecommit_early) (simp_all add: frame_prepare_fields[OF f])
  with p pp show ?thesis by (simp add: precommit_def)
qed

lemma precommit_backpressure_any:
  assumes "synced s" "uint (inmemPrecommittedTxID s) - uint (committedTxID s) = maxActiveTransactions s"
    and p: "precommit D s otx hdr skip now = (r, s')"
  shows "(\<exists>e. r = Inl e) \<and> frame_prepare s s'"
proof -
  obtain r0 s1 where pr: "precommit_prepare D s otx hdr skip now = (r0, s1)"
    by (cases "precommit_prepare D s otx hdr skip now")
  note f = precommit_prepare_frame[OF pr]
  show ?thesis
  proof (cases r0)
    case (Inl e)
    with p pr f show ?thesis by (auto simp: precommit_def)
  next
    case (Inr q)
    from precommit_backpressure_prepared[OF assms(1,2) pr[unfolded Inr]] p f
    show ?thesis by simp
  qed
qed

text \<open>Claim C2. In synced mode, a call to \<^verbatim>\<open>precommit\<close> made when
  \<open>inmemPrecommittedTxID - committedTxID\<close> equals \<open>MaxActiveTransactions\<close> fails with
  \<open>MaxActiveTransactionsLimitExceeded\<close>, and no transaction is appended to the tx log,
  the hash tree or the precommit buffer; \<open>inmemPrecommittedTxID\<close> is unchanged. The
  difference is the one of the two identifiers as numbers. Three facts are proved:
  \<^verbatim>\<open>performPrecommit\<close> returns that error at once and leaves the store as it is; every
  call to \<^verbatim>\<open>precommit\<close> that passes the stages before \<^verbatim>\<open>performPrecommit\<close>
  (validation, allocation, append of the values, checks under the mutex) fails with
  that error; and no call to \<^verbatim>\<open>precommit\<close> whatsoever succeeds or changes the tx log,
  the hash tree, the precommit buffer or the precommitted state (a call rejected by an
  earlier stage returns that stage's error).\<close>

theorem precommit_backpressure:
  assumes "synced s"
    and "uint (inmemPrecommittedTxID s) - uint (committedTxID s) = maxActiveTransactions s"
  shows "performPrecommit D s tx ts blTxID = (Some ErrMaxActiveTransactionsLimitExceeded, tx, s) \<and>
         (precommit_prepare D s otx hdr skip now = (Inr p, s1) \<longrightarrow>
            precommit D s otx hdr skip now = (Inl ErrMaxActiveTransactionsLimitExceeded, s1)) \<and>
         (precommit D s otx hdr skip now = (r, s') \<longrightarrow>
            (\<exists>e. r = Inl e) \<and> txLog s' = txLog s \<and> aht s' = aht s \<and> cLogBuf s' = cLogBuf s \<and>
            inmemPrecommittedTxID s' = inmemPrecommittedTxID s \<and>
            inmemPrecommittedAlh s' = inmemPrecommittedAlh s \<and>
            precommittedTxLogSize s' = precommittedTxLogSize s)"
  using performPrecommit_early[OF assms] precommit_backpressure_prepared[OF assms]
    precommit_backpressure_any[OF assms, of D otx hdr skip now r s']
  by (auto simp: frame_prepare_fields)

lemma check_expected_header_already:
  assumes "hID hdr \<le> inmemPrecommittedTxID s"
  shows "check_expected_header D s tx hdr skip =
           (Some (if \<not> skip \<and> hEh (header tx) \<noteq> hEh hdr then ErrIllegalArguments
                  else ErrTxAlreadyCommitted), s)"
  using assms by (simp add: check_expected_header_def Let_def)

lemma precommit_prepare_already:
  assumes le: "hID hdr \<le> inmemPrecommittedTxID s"
    and p: "precommit_prepare D s otx0 (Some hdr) skip now = (r, s')"
  shows "\<exists>e. r = Inl e"
proof (cases otx0)
  case None
  with p show ?thesis by (auto simp: precommit_prepare_def)
next
  case (Some otx)
  obtain ra s1 where ad: "appendData s (o_entries otx) = (ra, s1)"
    by (cases "appendData s (o_entries otx)")
  have "hID hdr \<le> inmemPrecommittedTxID s1"
    using le frame_prepare_fields(5)[OF appendData_frame[OF ad]] by simp
  note c = check_expected_header_already[OF this]
  from p Some ad show ?thesis
    unfolding precommit_prepare_def Let_def
    by (auto simp: c split: option.splits if_splits sum.splits)
qed

lemma precommit_already_any:
  assumes le: "hID hdr \<le> inmemPrecommittedTxID s"
    and p: "precommit D s otx0 (Some hdr) skip now = (r, s')"
  shows "(\<exists>e. r = Inl e) \<and> frame_prepare s s'"
proof -
  obtain r0 s1 where pr: "precommit_prepare D s otx0 (Some hdr) skip now = (r0, s1)"
    by (cases "precommit_prepare D s otx0 (Some hdr) skip now")
  from precommit_prepare_already[OF le pr] obtain e where "r0 = Inl e" by blast
  with p pr precommit_prepare_frame[OF pr] show ?thesis by (auto simp: precommit_def)
qed

lemma precommit_already_exact:
  assumes le: "hID hdr \<le> inmemPrecommittedTxID s"
    and "o_validateAgainst otx (Some hdr) = None"
    and "\<not> (length (o_entries otx) = 0 \<and> md_IsEmpty (o_metadata otx))"
    and "validateEntries D s (o_entries otx) = None"
    and "validatePreconditions s (o_preconditions otx) = None"
    and "txPoolFree s \<noteq> 0"
    and ad: "appendData s (o_entries otx) = (Inr offsets, s1)"
    and "d_buildHashTree D (map (fill_entry D) (o_entries otx)) = Inr eh"
    and "skip \<or> eh = hEh hdr"
  shows "precommit D s (Some otx) (Some hdr) skip now = (Inl ErrTxAlreadyCommitted, s1)"
proof -
  have "hID hdr \<le> inmemPrecommittedTxID s1"
    using le frame_prepare_fields(5)[OF appendData_frame[OF ad]] by simp
  note c = check_expected_header_already[OF this]
  have "precommit_prepare D s (Some otx) (Some hdr) skip now = (Inl ErrTxAlreadyCommitted, s1)"
    using assms(2-9) unfolding precommit_prepare_def Let_def
    by (auto simp: c fetchAllocTx_def)
  then show ?thesis by (simp add: precommit_def)
qed

text \<open>Claim C9. Replicating a transaction whose header ID is not above the last
  precommitted transaction ID fails with \<open>TxAlreadyCommitted\<close> and appends no
  transaction. For every such expected header, \<^verbatim>\<open>precommit\<close> never succeeds and leaves
  the tx log, the hash tree, the precommit buffer and the precommitted and committed
  state as they were. When the transaction passes the stages that come before the
  comparison of the IDs (validation against the header and of the entries and
  preconditions, a free transaction holder, the append of the values, the hash tree of
  the entries and, unless the integrity check is skipped, equal \<open>Eh\<close>), as a transaction
  exported from a store does, the error is \<open>TxAlreadyCommitted\<close>, and \<^verbatim>\<open>ReplicateTx\<close> on
  the exported bytes returns that error and no header.\<close>

theorem replicate_already_committed:
  assumes "hID hdr \<le> inmemPrecommittedTxID s"
  shows "(precommit D s otx0 (Some hdr) skip now = (r, s') \<longrightarrow>
            (\<exists>e. r = Inl e) \<and> txLog s' = txLog s \<and> aht s' = aht s \<and> cLogBuf s' = cLogBuf s \<and>
            inmemPrecommittedTxID s' = inmemPrecommittedTxID s \<and>
            inmemPrecommittedAlh s' = inmemPrecommittedAlh s \<and>
            precommittedTxLogSize s' = precommittedTxLogSize s \<and>
            committedTxID s' = committedTxID s) \<and>
         (o_validateAgainst otx (Some hdr) = None \<and>
          \<not> (length (o_entries otx) = 0 \<and> md_IsEmpty (o_metadata otx)) \<and>
          validateEntries D s (o_entries otx) = None \<and>
          validatePreconditions s (o_preconditions otx) = None \<and>
          txPoolFree s \<noteq> 0 \<and>
          appendData s (o_entries otx) = (Inr offsets, s1) \<and>
          d_buildHashTree D (map (fill_entry D) (o_entries otx)) = Inr eh \<and>
          (skip \<or> eh = hEh hdr) \<longrightarrow>
            precommit D s (Some otx) (Some hdr) skip now = (Inl ErrTxAlreadyCommitted, s1) \<and>
            (decode_exportedTx D exportedTx = Inr (hdr, otx) \<longrightarrow>
               ReplicateTx D s exportedTx skip waitForIndexing now
                 = ((None, Some ErrTxAlreadyCommitted), s1)))"
proof (intro conjI impI)
  assume d: "decode_exportedTx D exportedTx = Inr (hdr, otx)"
    and h: "o_validateAgainst otx (Some hdr) = None \<and>
          \<not> (length (o_entries otx) = 0 \<and> md_IsEmpty (o_metadata otx)) \<and>
          validateEntries D s (o_entries otx) = None \<and>
          validatePreconditions s (o_preconditions otx) = None \<and>
          txPoolFree s \<noteq> 0 \<and>
          appendData s (o_entries otx) = (Inr offsets, s1) \<and>
          d_buildHashTree D (map (fill_entry D) (o_entries otx)) = Inr eh \<and>
          (skip \<or> eh = hEh hdr)"
  then have "precommit D s (Some otx) (Some hdr) skip now = (Inl ErrTxAlreadyCommitted, s1)"
    using precommit_already_exact[OF assms, of otx D offsets s1 eh skip now] by blast
  with d show "ReplicateTx D s exportedTx skip waitForIndexing now
                 = ((None, Some ErrTxAlreadyCommitted), s1)"
    by (simp add: ReplicateTx_def)
qed (use precommit_already_any[OF assms, of D otx0 skip now r s']
      precommit_already_exact[OF assms, of otx D offsets s1 eh skip now]
     in \<open>auto simp: frame_prepare_fields\<close>)

lemma validateEntries_loop_Some:
  "validateEntries_loop D s m es = Some e \<Longrightarrow>
     (e = ErrNullKey \<and> (\<exists>x\<in>set es. Key x = None)) \<or>
     (e = ErrMaxKeyLenExceeded \<and> (\<exists>x\<in>set es. key_too_long s x)) \<or>
     (e = ErrMaxValueLenExceeded \<and> (\<exists>x\<in>set es. value_too_long s x)) \<or>
     (e = ErrDuplicatedKey \<and>
        (\<not> distinct (map (enc_key D) es) \<or> (\<exists>x\<in>set es. enc_key D x \<in> Some ` m)))"
proof (induction es arbitrary: m)
  case Nil
  then show ?case by simp
next
  case (Cons kv kvs)
  show ?case
  proof (cases "Key kv")
    case None
    with Cons.prems show ?thesis by simp
  next
    case (Some k)
    show ?thesis
    proof (cases "int (length k) > maxKeyLen s")
      case True
      with Cons.prems Some show ?thesis by (simp add: key_too_long_def)
    next
      case kl: False
      show ?thesis
      proof (cases "int (length (Value kv)) > maxValueLen s")
        case True
        with Cons.prems Some kl show ?thesis by (simp add: value_too_long_def)
      next
        case vl: False
        show ?thesis
        proof (cases "d_b64 D k \<in> m")
          case True
          with Cons.prems Some kl vl have "e = ErrDuplicatedKey" by simp
          moreover have "enc_key D kv \<in> Some ` m" using True Some by (simp add: enc_key_def)
          ultimately show ?thesis by simp
        next
          case False
          with Cons.prems Some kl vl
          have "validateEntries_loop D s (insert (d_b64 D k) m) kvs = Some e" by simp
          note IH = Cons.IH[OF this]
          have ek: "enc_key D kv = Some (d_b64 D k)" using Some by (simp add: enc_key_def)
          from IH consider
              (nk) "e = ErrNullKey" "\<exists>x\<in>set kvs. Key x = None"
            | (kl) "e = ErrMaxKeyLenExceeded" "\<exists>x\<in>set kvs. key_too_long s x"
            | (vl) "e = ErrMaxValueLenExceeded" "\<exists>x\<in>set kvs. value_too_long s x"
            | (dk) "e = ErrDuplicatedKey"
                   "\<not> distinct (map (enc_key D) kvs) \<or>
                    (\<exists>x\<in>set kvs. enc_key D x \<in> Some ` insert (d_b64 D k) m)"
            by blast
          then show ?thesis
          proof cases
            case nk
            then show ?thesis by auto
          next
            case kl
            then show ?thesis by auto
          next
            case vl
            then show ?thesis by auto
          next
            case dk
            from dk(2) have "\<not> distinct (map (enc_key D) (kv # kvs)) \<or>
                         (\<exists>x\<in>set (kv # kvs). enc_key D x \<in> Some ` m)"
            proof
              assume "\<not> distinct (map (enc_key D) kvs)"
              then show ?thesis by simp
            next
              assume "\<exists>x\<in>set kvs. enc_key D x \<in> Some ` insert (d_b64 D k) m"
              then obtain x where x: "x \<in> set kvs" "enc_key D x \<in> Some ` insert (d_b64 D k) m"
                by blast
              show ?thesis
              proof (cases "enc_key D x = Some (d_b64 D k)")
                case True
                with x(1) ek have "enc_key D kv \<in> set (map (enc_key D) kvs)" by force
                then show ?thesis by simp
              next
                case False
                with x(2) have "enc_key D x \<in> Some ` m" by auto
                with x(1) show ?thesis by auto
              qed
            qed
            with dk(1) show ?thesis by (intro disjI2) simp
          qed
        qed
      qed
    qed
  qed
qed

lemma validateEntries_loop_None:
  "validateEntries_loop D s m es = None \<Longrightarrow>
     (\<forall>x\<in>set es. Key x \<noteq> None \<and> \<not> key_too_long s x \<and> \<not> value_too_long s x \<and>
                  enc_key D x \<notin> Some ` m) \<and>
     distinct (map (enc_key D) es)"
proof (induction es arbitrary: m)
  case Nil
  then show ?case by simp
next
  case (Cons kv kvs)
  from Cons.prems obtain k where k: "Key kv = Some k" by (cases "Key kv") auto
  from Cons.prems k have kl: "\<not> int (length k) > maxKeyLen s" by (auto split: if_splits)
  from Cons.prems k kl have vl: "\<not> int (length (Value kv)) > maxValueLen s" by (auto split: if_splits)
  from Cons.prems k kl vl have nm: "d_b64 D k \<notin> m" by (auto split: if_splits)
  from Cons.prems k kl vl nm
  have "validateEntries_loop D s (insert (d_b64 D k) m) kvs = None" by simp
  note IH = Cons.IH[OF this]
  have ek: "enc_key D kv = Some (d_b64 D k)" using k by (simp add: enc_key_def)
  have a: "Key kv \<noteq> None \<and> \<not> key_too_long s kv \<and> \<not> value_too_long s kv \<and>
           enc_key D kv \<notin> Some ` m"
    using k kl vl nm ek by (simp add: key_too_long_def value_too_long_def image_iff)
  have b: "\<forall>x\<in>set kvs. Key x \<noteq> None \<and> \<not> key_too_long s x \<and> \<not> value_too_long s x \<and>
             enc_key D x \<notin> Some ` m"
    using IH by auto
  have c: "enc_key D kv \<notin> set (map (enc_key D) kvs)"
  proof
    assume "enc_key D kv \<in> set (map (enc_key D) kvs)"
    then obtain x where "x \<in> set kvs" "enc_key D x = Some (d_b64 D k)" using ek by auto
    with IH show False by auto
  qed
  from a b c IH show ?case by simp
qed

lemma distinct_enc_key:
  assumes "inj (d_b64 D)"
  shows "distinct (map (enc_key D) es) \<longleftrightarrow> distinct (map Key es)"
proof -
  have i: "inj (map_option (d_b64 D))" using assms by (simp add: option.inj_map)
  have e: "enc_key D = map_option (d_b64 D) \<circ> Key"
    by (auto simp: enc_key_def fun_eq_iff)
  have "distinct (map (enc_key D) es) = distinct (map (map_option (d_b64 D)) (map Key es))"
    by (simp only: e map_map)
  also have "\<dots> \<longleftrightarrow> distinct (map Key es)"
    using i by (metis distinct_map inj_on_subset subset_UNIV)
  finally show ?thesis .
qed

text \<open>Claim C3. Validation of the entries of an ongoing transaction. The conditions are:
  more entries than \<open>MaxTxEntries\<close>; a null key; a key longer than \<open>MaxKeyLen\<close>; a value
  longer than \<open>MaxValueLen\<close>; two entries with the same key. \<open>entries_rejected s es e\<close>
  says that \<open>e\<close> is the error of a condition that holds of \<open>es\<close>. Too many entries
  always give \<open>MaxTxEntriesLimitExceeded\<close>; an error returned by the validation is
  always the error of a condition that holds (so when conditions of one kind only
  hold, it is their error); the validation passes exactly when no condition holds; and
  when the validation fails, \<^verbatim>\<open>precommit\<close> returns its error and the store is
  unchanged. Keys are compared through their base-64 encoding, which is injective.\<close>

theorem validateEntries_conditions:
  assumes "inj (d_b64 D)"
  shows "(int (length es) > maxTxEntries s \<longrightarrow>
            validateEntries D s es = Some ErrMaxTxEntriesLimitExceeded) \<and>
         (validateEntries D s es = Some e \<longrightarrow> entries_rejected s es e) \<and>
         (validateEntries D s es = None \<longleftrightarrow> (\<forall>e'. \<not> entries_rejected s es e')) \<and>
         (validateEntries D s (o_entries otx) = Some e \<and> o_validateAgainst otx hdr = None \<and>
          \<not> (length (o_entries otx) = 0 \<and> md_IsEmpty (o_metadata otx)) \<longrightarrow>
            precommit D s (Some otx) hdr skip now = (Inl e, s))"
proof (intro conjI impI)
  show "validateEntries D s es = Some ErrMaxTxEntriesLimitExceeded"
    if "int (length es) > maxTxEntries s"
    using that by (simp add: validateEntries_def)
  show some: "entries_rejected s es e" if "validateEntries D s es = Some e" for e
  proof (cases "int (length es) > maxTxEntries s")
    case True
    with that show ?thesis by (simp add: validateEntries_def entries_rejected_def)
  next
    case False
    with that have "validateEntries_loop D s {} es = Some e" by (simp add: validateEntries_def)
    from validateEntries_loop_Some[OF this] show ?thesis
      by (auto simp: entries_rejected_def distinct_enc_key[OF assms])
  qed
  show "validateEntries D s es = None \<longleftrightarrow> (\<forall>e'. \<not> entries_rejected s es e')"
  proof
    assume n: "validateEntries D s es = None"
    then have le: "\<not> int (length es) > maxTxEntries s"
      by (auto simp: validateEntries_def split: if_splits)
    with n have "validateEntries_loop D s {} es = None" by (simp add: validateEntries_def)
    from validateEntries_loop_None[OF this] le show "\<forall>e'. \<not> entries_rejected s es e'"
      by (auto simp: entries_rejected_def distinct_enc_key[OF assms])
  next
    assume a: "\<forall>e'. \<not> entries_rejected s es e'"
    show "validateEntries D s es = None"
    proof (cases "validateEntries D s es")
      case None
      then show ?thesis .
    next
      case (Some e')
      from some[OF this] a show ?thesis by blast
    qed
  qed
  show "precommit D s (Some otx) hdr skip now = (Inl e, s)"
    if "validateEntries D s (o_entries otx) = Some e \<and> o_validateAgainst otx hdr = None \<and>
          \<not> (length (o_entries otx) = 0 \<and> md_IsEmpty (o_metadata otx))"
    using that by (auto simp: precommit_def precommit_prepare_def)
qed

end
